theory Spec2Isabelle
  imports Main "HOL-Library.Word" "HOL-Library.Sublist"
begin

section \<open>Strings and the string operations the program calls\<close>

text \<open>
  A JavaScript string is modelled by the \<^typ>\<open>string\<close> of its UTF-8 bytes: an ASCII
  character is one \<^typ>\<open>char\<close>, any other code point is the two to four bytes of its
  encoding. For well-formed strings (no lone surrogate) equality, concatenation, the
  suffix test and the removal of ASCII characters agree with the same operations on
  UTF-16 code units. The binary content of a file is a list of bytes.
\<close>

type_synonym bytes = "8 word list"

datatype js_error = URIError

text \<open>\<^verbatim>\<open>String.prototype.endsWith\<close>: false when the search string is longer.\<close>

definition endsWith :: "string \<Rightarrow> string \<Rightarrow> bool" where
  "endsWith s searchString =
     (length searchString \<le> length s \<and>
      drop (length s - length searchString) s = searchString)"

text \<open>
  \<^verbatim>\<open>String.prototype.trim\<close> removes white space and line terminators at both ends:
  U+0009 to U+000D, U+0020, U+00A0, U+1680, U+2000 to U+200A, U+2028, U+2029, U+202F,
  U+205F, U+3000 and U+FEFF, here in their UTF-8 encodings of one, two or three bytes.
\<close>

definition ws1 :: "char \<Rightarrow> bool" where
  "ws1 a = (let x = (of_char a :: nat) in (9 \<le> x \<and> x \<le> 13) \<or> x = 32)"

definition ws2 :: "char \<Rightarrow> char \<Rightarrow> bool" where
  "ws2 a b = ((of_char a :: nat) = 0xC2 \<and> (of_char b :: nat) = 0xA0)"

definition ws3 :: "char \<Rightarrow> char \<Rightarrow> char \<Rightarrow> bool" where
  "ws3 a b c =
     (let x = (of_char a :: nat); y = (of_char b :: nat); z = (of_char c :: nat) in
        (x = 0xE1 \<and> y = 0x9A \<and> z = 0x80) \<or>
        (x = 0xE2 \<and> y = 0x80 \<and> ((0x80 \<le> z \<and> z \<le> 0x8A) \<or> z = 0xA8 \<or> z = 0xA9 \<or> z = 0xAF)) \<or>
        (x = 0xE2 \<and> y = 0x81 \<and> z = 0x9F) \<or>
        (x = 0xE3 \<and> y = 0x80 \<and> z = 0x80) \<or>
        (x = 0xEF \<and> y = 0xBB \<and> z = 0xBF))"

fun trimStart :: "string \<Rightarrow> string" where
  "trimStart [] = []"
| "trimStart (a # s) =
     (if ws1 a then trimStart s
      else (case s of
              [] \<Rightarrow> [a]
            | b # s' \<Rightarrow>
                if ws2 a b then trimStart s'
                else (case s' of
                        [] \<Rightarrow> [a, b]
                      | c # s'' \<Rightarrow> if ws3 a b c then trimStart s'' else a # s)))"

text \<open>The same scan from the end, on the reversed string: the last byte comes first.\<close>

fun trimEnd_rev :: "string \<Rightarrow> string" where
  "trimEnd_rev [] = []"
| "trimEnd_rev (c # s) =
     (if ws1 c then trimEnd_rev s
      else (case s of
              [] \<Rightarrow> [c]
            | b # s' \<Rightarrow>
                if ws2 b c then trimEnd_rev s'
                else (case s' of
                        [] \<Rightarrow> [c, b]
                      | a # s'' \<Rightarrow> if ws3 a b c then trimEnd_rev s'' else c # s)))"

definition trimEnd :: "string \<Rightarrow> string" where
  "trimEnd s = rev (trimEnd_rev (rev s))"

definition trim :: "string \<Rightarrow> string" where
  "trim s = trimEnd (trimStart s)"

text \<open>\<^verbatim>\<open>path.split('/')\<close> and \<^verbatim>\<open>.pop()\<close>, which is undefined on an empty array.\<close>

fun split :: "char \<Rightarrow> string \<Rightarrow> string list" where
  "split sep [] = [[]]"
| "split sep (x # xs) =
     (if x = sep then [] # split sep xs
      else (case split sep xs of
              [] \<Rightarrow> [[x]]
            | seg # segs \<Rightarrow> (x # seg) # segs))"

definition pop :: "'a list \<Rightarrow> 'a option" where
  "pop xs = (if xs = [] then None else Some (last xs))"

subsection \<open>decodeURIComponent\<close>

text \<open>
  The Decode operation of ECMAScript with an empty set of preserved escapes. An escape
  \<^verbatim>\<open>%XX\<close> below 0x80 is that character; an escape with n leading one bits must be
  followed by n - 1 further escapes, and the n octets must be the UTF-8 encoding of a
  code point, which is the decoded character. Everything else raises URIError.
  \<open>Decode n octets s\<close> reads \<open>s\<close> with \<open>n\<close> octets of the current character still
  to come and \<open>octets\<close> already read.
\<close>

definition hexDigit :: "char \<Rightarrow> nat option" where
  "hexDigit c =
     (let x = (of_char c :: nat) in
        if 48 \<le> x \<and> x \<le> 57 then Some (x - 48)
        else if 65 \<le> x \<and> x \<le> 70 then Some (x - 55)
        else if 97 \<le> x \<and> x \<le> 102 then Some (x - 87)
        else None)"

definition ParseHexOctet :: "char \<Rightarrow> char \<Rightarrow> nat option" where
  "ParseHexOctet h1 h2 =
     (case hexDigit h1 of
        None \<Rightarrow> None
      | Some a \<Rightarrow> (case hexDigit h2 of None \<Rightarrow> None | Some b \<Rightarrow> Some (16 * a + b)))"

definition leadingOnes :: "nat \<Rightarrow> nat" where
  "leadingOnes B =
     (if B < 0x80 then 0 else if B < 0xC0 then 1 else if B < 0xE0 then 2
      else if B < 0xF0 then 3 else if B < 0xF8 then 4 else 5)"

definition cont :: "nat \<Rightarrow> bool" where
  "cont b = (0x80 \<le> b \<and> b \<le> 0xBF)"

fun validUTF8 :: "nat list \<Rightarrow> bool" where
  "validUTF8 [a, b] = (0xC2 \<le> a \<and> a \<le> 0xDF \<and> cont b)"
| "validUTF8 [a, b, c] =
     ((a = 0xE0 \<and> 0xA0 \<le> b \<and> b \<le> 0xBF \<and> cont c) \<or>
      (0xE1 \<le> a \<and> a \<le> 0xEC \<and> cont b \<and> cont c) \<or>
      (a = 0xED \<and> 0x80 \<le> b \<and> b \<le> 0x9F \<and> cont c) \<or>
      (0xEE \<le> a \<and> a \<le> 0xEF \<and> cont b \<and> cont c))"
| "validUTF8 [a, b, c, d] =
     ((a = 0xF0 \<and> 0x90 \<le> b \<and> b \<le> 0xBF \<and> cont c \<and> cont d) \<or>
      (0xF1 \<le> a \<and> a \<le> 0xF3 \<and> cont b \<and> cont c \<and> cont d) \<or>
      (a = 0xF4 \<and> 0x80 \<le> b \<and> b \<le> 0x8F \<and> cont c \<and> cont d))"
| "validUTF8 _ = False"

fun Decode :: "nat \<Rightarrow> nat list \<Rightarrow> string \<Rightarrow> js_error + string" where
  "Decode n octets [] = (if n = 0 then Inr [] else Inl URIError)"
| "Decode n octets (C # s) =
     (if C \<noteq> CHR ''%'' then
        (if n = 0 then map_sum (\<lambda>e. e) ((#) C) (Decode 0 [] s) else Inl URIError)
      else (case s of
              h1 # h2 # rest \<Rightarrow>
                (case ParseHexOctet h1 h2 of
                   None \<Rightarrow> Inl URIError
                 | Some B \<Rightarrow>
                     if n = 0 then
                       (if leadingOnes B = 0 then
                          map_sum (\<lambda>e. e) ((#) (char_of B)) (Decode 0 [] rest)
                        else if leadingOnes B = 1 \<or> 4 < leadingOnes B then Inl URIError
                        else Decode (leadingOnes B - 1) [B] rest)
                     else if n = 1 then
                       (if validUTF8 (octets @ [B]) then
                          map_sum (\<lambda>e. e) ((@) (map char_of (octets @ [B]))) (Decode 0 [] rest)
                        else Inl URIError)
                     else Decode (n - 1) (octets @ [B]) rest)
            | _ \<Rightarrow> Inl URIError))"

definition decodeURIComponent :: "string \<Rightarrow> js_error + string" where
  "decodeURIComponent s = Decode 0 [] s"

subsection \<open>The regular expressions of the program\<close>

text \<open>
  \<^verbatim>\<open>/\.(jpg|jpeg|png|gif|webp)$/i.test(fileName)\<close>: the string ends with a dot and one of
  the five extensions. The flag \<^verbatim>\<open>i\<close> compares upper-cased characters, and without the
  flag \<^verbatim>\<open>u\<close> a non-ASCII character never equals an ASCII letter.
\<close>

definition toUpperCase_ascii :: "char \<Rightarrow> char" where
  "toUpperCase_ascii c =
     (let x = (of_char c :: nat) in if 97 \<le> x \<and> x \<le> 122 then char_of (x - 32) else c)"

definition test_image_ext :: "string \<Rightarrow> bool" where
  "test_image_ext fileName =
     list_ex (\<lambda>ext. endsWith (map toUpperCase_ascii fileName) (CHR ''.'' # ext))
       [''JPG'', ''JPEG'', ''PNG'', ''GIF'', ''WEBP'']"

text \<open>\<^verbatim>\<open>s.replace(/[!\\]/g, '')\<close>: every exclamation mark and backslash is removed.\<close>

definition replace_bang_backslash :: "string \<Rightarrow> string" where
  "replace_bang_backslash s = filter (\<lambda>c. c \<noteq> CHR ''!'' \<and> c \<noteq> CHR 0x5C) s"

text \<open>
  \<^verbatim>\<open>s.replace(/^[![(]|[)\]]/g, '')\<close>: the first alternative matches at position 0 only,
  so one leading \<^verbatim>\<open>!\<close>, \<^verbatim>\<open>[\<close> or \<^verbatim>\<open>(\<close> is removed, and the second alternative
  removes every \<^verbatim>\<open>)\<close> and \<^verbatim>\<open>]\<close>.
\<close>

definition replace_markdown_punct :: "string \<Rightarrow> string" where
  "replace_markdown_punct s =
     filter (\<lambda>c. c \<noteq> CHR '')'' \<and> c \<noteq> CHR '']'')
       (case s of
          [] \<Rightarrow> []
        | c # cs \<Rightarrow> if c = CHR ''!'' \<or> c = CHR ''['' \<or> c = CHR ''('' then cs else c # cs)"

section \<open>The data model (types.ts)\<close>

text \<open>
  Isabelle has one name space for constants and variables, so each field carries the
  name of its interface as a prefix: \<open>img_name\<close> is \<^verbatim>\<open>ImageFile.name\<close>, \<open>att_name\<close> is
  \<^verbatim>\<open>Attachment.name\<close>, \<open>file_name\<close> is \<^verbatim>\<open>File.name\<close>.

  A \<^verbatim>\<open>File\<close> is its name and its bytes; \<^verbatim>\<open>file.size\<close> is the number of bytes. The
  media type and the modification time are never read by the program and are left out.
  The field \<^verbatim>\<open>url\<close> of an image holds an object URL or a data URL; the model stores the
  bytes that fetching the URL returns (the content behind such a URL never changes, and
  the program revokes no image URL). The field \<^verbatim>\<open>id\<close> of an attachment is optional in
  the model, \<open>None\<close> for an object without the property, because \<open>readZipFile\<close> builds
  its attachments without it.
\<close>

record File =
  file_name :: string
  file_bytes :: bytes

definition file_size :: "File \<Rightarrow> nat" where
  "file_size f = length (file_bytes f)"

record ImageFile =
  img_id :: string
  img_name :: string
  img_url :: bytes
  img_file :: File
  img_size :: nat

record Attachment =
  att_id :: "string option"
  att_name :: string
  att_file :: File
  att_size :: nat

record ZipContent =
  zc_readme :: string
  zc_images :: "ImageFile list"
  zc_attachments :: "Attachment list"

section \<open>The archive library\<close>

text \<open>
  The program reads and writes archives through the JSZip library, which is not part of
  the repository. The model is the table \<^verbatim>\<open>zip.files\<close> of the library: the entries in
  the order of \<^verbatim>\<open>Object.entries\<close>, each a path with a directory flag and the bytes of
  the entry. \<^verbatim>\<open>generateAsync\<close> writes the entries of the table to the archive and
  \<^verbatim>\<open>loadAsync\<close> builds a new table from the entries of an archive; an archive is
  modelled by the list of its entries in the order of its central directory, each with
  its name, its directory attribute and its bytes. Outside the model are the layout of
  the bytes and a file that is no archive (\<^verbatim>\<open>loadAsync\<close> rejects it and
  \<^verbatim>\<open>handleZipUpload\<close> keeps the state it has). Text is stored as its UTF-8 bytes,
  which in this model of strings are the characters of the string; bytes that are not
  UTF-8 are outside the model.
\<close>

record ZipObject =
  entry_dir :: bool
  entry_data :: bytes

type_synonym files = "(string \<times> ZipObject) list"

definition utf8encode :: "string \<Rightarrow> bytes" where
  "utf8encode s = map (\<lambda>c. of_nat (of_char c)) s"

definition utf8decode :: "bytes \<Rightarrow> string" where
  "utf8decode b = map (\<lambda>x. char_of (unat x)) b"

text \<open>\<^verbatim>\<open>this.files[name] = object\<close>: an existing key keeps its place, a new key comes last.\<close>

fun files_put :: "string \<Rightarrow> ZipObject \<Rightarrow> files \<Rightarrow> files" where
  "files_put name obj [] = [(name, obj)]"
| "files_put name obj ((k, v) # fs) =
     (if k = name then (k, obj) # fs else (k, v) # files_put name obj fs)"

definition forceTrailingSlash :: "string \<Rightarrow> string" where
  "forceTrailingSlash path =
     (if path \<noteq> [] \<and> last path = CHR ''/'' then path else path @ ''/'')"

definition lastIndexOf :: "string \<Rightarrow> char \<Rightarrow> int" where
  "lastIndexOf s c =
     (case dropWhile (\<lambda>x. x \<noteq> c) (rev s) of [] \<Rightarrow> - 1 | _ # r \<Rightarrow> int (length r))"

definition parentFolder :: "string \<Rightarrow> string" where
  "parentFolder path =
     (let path = (if path \<noteq> [] \<and> last path = CHR ''/'' then butlast path else path);
          lastSlash = lastIndexOf path CHR ''/''
      in if 0 < lastSlash then take (nat lastSlash) path else [])"

text \<open>
  \<^verbatim>\<open>folderAdd\<close>: the folder entry is created when the table has none at that name, its
  own parent folders first (\<^verbatim>\<open>createFolders\<close> is on by default). A folder entry has
  the directory flag and no data.
\<close>

function folderAdd :: "string \<Rightarrow> files \<Rightarrow> files" where
  "folderAdd name fs =
     (let name = forceTrailingSlash name in
        if map_of fs name = None then
          (let parent = parentFolder name;
               fs = (if parent \<noteq> [] then folderAdd parent fs else fs)
           in files_put name \<lparr>entry_dir = True, entry_data = []\<rparr> fs)
        else fs)"
  by pat_completeness auto
termination
proof (relation "measure (\<lambda>(name, fs). length (forceTrailingSlash name))")
  show "wf (measure (\<lambda>(name, fs). length (forceTrailingSlash name)))" by simp
next
  fix name :: string and fs :: files and x xa
  assume a: "x = forceTrailingSlash name" "xa = parentFolder x" "xa \<noteq> []"
  let ?p = "if x \<noteq> [] \<and> last x = CHR ''/'' then butlast x else x"
  let ?r = "dropWhile (\<lambda>c. c \<noteq> CHR ''/'') (rev ?p)"
  from a(1) have "x \<noteq> []" by (simp add: forceTrailingSlash_def)
  then obtain ys y where x: "x = ys @ [y]"
    by (cases x rule: rev_cases) auto
  have "length (dropWhile (\<lambda>c. c \<noteq> CHR ''/'') (rev ys)) \<le> length (rev ys)"
    by (rule length_dropWhile_le)
  with x have b: "length ?r < length x"
    by (cases "y = CHR ''/''") simp_all
  from a have pne: "parentFolder x \<noteq> []" by simp
  then obtain c r' where r: "?r = c # r'"
    by (cases ?r) (auto simp: parentFolder_def lastIndexOf_def Let_def)
  then have "parentFolder x = take (length r') ?p \<or> parentFolder x = []"
    by (auto simp: parentFolder_def lastIndexOf_def Let_def)
  with pne have "length (parentFolder x) \<le> length r'" by auto
  with b r have "length (parentFolder x) + 2 \<le> length x" by simp
  then have "length (forceTrailingSlash (parentFolder x)) < length x"
    by (auto simp: forceTrailingSlash_def)
  with a show "((xa, fs), name, fs) \<in> measure (\<lambda>(name, fs). length (forceTrailingSlash name))"
    by simp
qed

declare folderAdd.simps [simp del]

text \<open>
  \<^verbatim>\<open>fileAdd\<close> for a file (no directory option): the parent folders are created, then
  the entry is stored at the name.
\<close>

definition fileAdd :: "string \<Rightarrow> bytes \<Rightarrow> files \<Rightarrow> files" where
  "fileAdd name data fs =
     (let parent = parentFolder name;
          fs = (if parent \<noteq> [] then folderAdd parent fs else fs)
      in files_put name \<lparr>entry_dir = False, entry_data = data\<rparr> fs)"

text \<open>
  A JSZip object is the shared table and a root prefix: \<^verbatim>\<open>folder(arg)\<close> adds the folder
  and returns the same table under the root of the folder's name; \<^verbatim>\<open>file(name, data)\<close>
  adds a file below the root; \<^verbatim>\<open>file(name)\<close> looks an entry up and answers null for a
  missing entry and for a directory.
\<close>

definition zip_folder :: "string \<Rightarrow> string \<Rightarrow> files \<Rightarrow> string \<times> files" where
  "zip_folder root arg fs = (forceTrailingSlash (root @ arg), folderAdd (root @ arg) fs)"

definition zip_file :: "string \<Rightarrow> string \<Rightarrow> bytes \<Rightarrow> files \<Rightarrow> files" where
  "zip_file root name data fs = fileAdd (root @ name) data fs"

definition zip_file_get :: "string \<Rightarrow> string \<Rightarrow> files \<Rightarrow> ZipObject option" where
  "zip_file_get root name fs =
     (case map_of fs (root @ name) of
        None \<Rightarrow> None
      | Some obj \<Rightarrow> if entry_dir obj then None else Some obj)"

subsection \<open>Writing the archive and reading it back\<close>

type_synonym archive = "(string \<times> ZipObject) list"

text \<open>
  \<^verbatim>\<open>generateAsync\<close> writes one entry for each key of the table, in the order of
  \<^verbatim>\<open>zip.forEach\<close>, which passes over a key that is the empty string. The directory
  flag of an entry is written as the directory attribute.
\<close>

definition generateAsync :: "files \<Rightarrow> archive" where
  "generateAsync fs = filter (\<lambda>(filename, obj). filename \<noteq> []) fs"

text \<open>
  \<^verbatim>\<open>utils.resolve\<close>, which \<^verbatim>\<open>loadAsync\<close> applies to the name of every entry: the
  segments \<^verbatim>\<open>.\<close> and the empty segments other than the first and the last are dropped,
  a segment \<^verbatim>\<open>..\<close> removes the segment before it (\<^verbatim>\<open>result.pop()\<close>, nothing on an empty
  array), and the rest is joined again.
\<close>

fun join :: "char \<Rightarrow> string list \<Rightarrow> string" where
  "join sep [] = []"
| "join sep [part] = part"
| "join sep (part # next_part # parts) = part @ sep # join sep (next_part # parts)"

fun resolve_loop :: "string list \<Rightarrow> nat \<Rightarrow> nat \<Rightarrow> string list \<Rightarrow> string list" where
  "resolve_loop [] index parts_length result = result"
| "resolve_loop (part # rest) index parts_length result =
     (if part = ''.'' \<or> (part = [] \<and> index \<noteq> 0 \<and> index \<noteq> parts_length - 1) then
        resolve_loop rest (Suc index) parts_length result
      else if part = ''..'' then
        resolve_loop rest (Suc index) parts_length (butlast result)
      else resolve_loop rest (Suc index) parts_length (result @ [part]))"

definition resolve :: "string \<Rightarrow> string" where
  "resolve path =
     (let parts = split CHR ''/'' path
      in join CHR ''/'' (resolve_loop parts 0 (length parts) []))"

text \<open>
  \<^verbatim>\<open>loadAsync\<close>: an entry is a directory when it has the directory attribute or its name
  ends with a slash. Every entry is stored with
  \<^verbatim>\<open>zip.file(safeName, data, {dir, createFolders: false})\<close>: a directory gets a trailing
  slash and no data, no parent folder is created, and a name stored twice keeps the
  place of the first entry and the object of the last. (JavaScript lists a key that is
  an array index, such as \<^verbatim>\<open>7\<close>, before all other keys; the order of the table
  after such a name is outside the model. No path that \<^verbatim>\<open>createZipFile\<close> writes is
  one.)
\<close>

fun loadAsync_loop :: "archive \<Rightarrow> files \<Rightarrow> files" where
  "loadAsync_loop [] zip' = zip'"
| "loadAsync_loop ((fileNameStr, input) # rest) zip' =
     (let dir = (entry_dir input \<or> (fileNameStr \<noteq> [] \<and> last fileNameStr = CHR ''/''));
          safeName = resolve fileNameStr;
          name = (if dir then forceTrailingSlash safeName else safeName);
          data = (if dir then [] else entry_data input)
      in loadAsync_loop rest (files_put name \<lparr>entry_dir = dir, entry_data = data\<rparr> zip'))"

definition loadAsync :: "archive \<Rightarrow> files" where
  "loadAsync zipEntries = loadAsync_loop zipEntries []"

section \<open>readZipFile and createZipFile (utils/zip.ts)\<close>

text \<open>
  \<^verbatim>\<open>crypto.randomUUID()\<close> is modelled by the sequence \<open>uuid\<close> of the values its calls
  return; \<open>k\<close> counts the calls made so far. \<open>readZipFile\<close> is the function from the
  table \<open>contents\<close> that \<^verbatim>\<open>loadAsync\<close> returns; \<open>readZipFile_archive\<close> is the whole
  function, from the archive. \<open>createZipFile\<close> is the function to the table on which
  the program calls \<^verbatim>\<open>generateAsync\<close>; \<open>createZipFile_archive\<close> is the whole
  function, to the archive.
\<close>

fun readZipFile_loop ::
  "(nat \<Rightarrow> string) \<Rightarrow> nat \<Rightarrow> files \<Rightarrow> ImageFile list \<Rightarrow> Attachment list
     \<Rightarrow> ImageFile list \<times> Attachment list" where
  "readZipFile_loop uuid k [] images attachments = (images, attachments)"
| "readZipFile_loop uuid k ((path, zipEntry) # rest) images attachments =
     (if \<not> entry_dir zipEntry then
        (let blob = entry_data zipEntry;
             fileName = (case pop (split CHR ''/'' path) of None \<Rightarrow> [] | Some seg \<Rightarrow> seg)
         in if test_image_ext fileName then
              readZipFile_loop uuid (Suc k) rest
                (images @
                  [\<lparr>img_id = uuid k, img_name = fileName, img_url = blob,
                    img_file = \<lparr>file_name = fileName, file_bytes = blob\<rparr>,
                    img_size = length blob\<rparr>])
                attachments
            else if path \<noteq> ''README.md'' then
              readZipFile_loop uuid k rest images
                (attachments @
                  [\<lparr>att_id = None, att_name = fileName,
                    att_file = \<lparr>file_name = fileName, file_bytes = blob\<rparr>,
                    att_size = length blob\<rparr>])
            else readZipFile_loop uuid k rest images attachments)
      else readZipFile_loop uuid k rest images attachments)"

definition readZipFile :: "(nat \<Rightarrow> string) \<Rightarrow> files \<Rightarrow> ZipContent" where
  "readZipFile uuid contents =
     (let readme = zip_file_get [] ''README.md'' contents;
          readmeContent = (case readme of None \<Rightarrow> [] | Some obj \<Rightarrow> utf8decode (entry_data obj));
          (images, attachments) = readZipFile_loop uuid 0 contents [] []
      in \<lparr>zc_readme = readmeContent, zc_images = images, zc_attachments = attachments\<rparr>)"

fun add_images :: "string \<Rightarrow> ImageFile list \<Rightarrow> files \<Rightarrow> files" where
  "add_images imagesFolder [] zip' = zip'"
| "add_images imagesFolder (image' # images) zip' =
     add_images imagesFolder images (zip_file imagesFolder (img_name image') (img_url image') zip')"

fun add_attachments :: "string \<Rightarrow> Attachment list \<Rightarrow> files \<Rightarrow> files" where
  "add_attachments attachmentsFolder [] zip' = zip'"
| "add_attachments attachmentsFolder (attachment # attachments) zip' =
     add_attachments attachmentsFolder attachments
       (zip_file attachmentsFolder (att_name attachment) (file_bytes (att_file attachment)) zip')"

definition createZipFile :: "string \<Rightarrow> ImageFile list \<Rightarrow> Attachment list \<Rightarrow> files" where
  "createZipFile markdown images attachments =
     (let zip' = zip_file [] ''README.md'' (utf8encode markdown) [];
          (imagesFolder, zip') = zip_folder [] ''images'' zip';
          zip' = add_images imagesFolder images zip';
          (attachmentsFolder, zip') = zip_folder [] ''attachments'' zip';
          zip' = add_attachments attachmentsFolder attachments zip'
      in zip')"

definition readZipFile_archive :: "(nat \<Rightarrow> string) \<Rightarrow> archive \<Rightarrow> ZipContent" where
  "readZipFile_archive uuid file' = readZipFile uuid (loadAsync file')"

definition createZipFile_archive ::
  "string \<Rightarrow> ImageFile list \<Rightarrow> Attachment list \<Rightarrow> archive" where
  "createZipFile_archive markdown images attachments =
     generateAsync (createZipFile markdown images attachments)"

section \<open>The application (App.tsx)\<close>

text \<open>
  The state of the component is the markdown text, the array of images and the array of
  attachments. A handler is modelled as the function from the array it reads (the one
  of the current render) to the array it passes to \<^verbatim>\<open>setImages\<close> or
  \<^verbatim>\<open>setAttachments\<close>.

  The handlers that rename and remove compare objects with \<^verbatim>\<open>===\<close> and \<^verbatim>\<open>!==\<close>, that
  is by reference: two objects with the same values in all fields are still two
  objects. For these handlers an element of the array is an object, that is its
  reference together with the values of its fields, and two objects are the same when
  their references are. No handler changes an object in place. The spread
  \<^verbatim>\<open>{...img, name: newName}\<close> makes a new object; the references of the objects made by
  one call are the values \<open>alloc k\<close>, \<open>alloc (k + 1)\<close>, ... of the sequence \<open>alloc\<close>.
\<close>

datatype 'a object = Object (reference: nat) (fields: 'a)

subsection \<open>Ingestion\<close>

fun newImages :: "(nat \<Rightarrow> string) \<Rightarrow> nat \<Rightarrow> File list \<Rightarrow> ImageFile list" where
  "newImages uuid k [] = []"
| "newImages uuid k (f # fs) =
     \<lparr>img_id = uuid k, img_name = file_name f, img_url = file_bytes f, img_file = f,
       img_size = file_size f\<rparr> # newImages uuid (Suc k) fs"

definition handleImageUpload ::
  "(nat \<Rightarrow> string) \<Rightarrow> File list option \<Rightarrow> ImageFile list \<Rightarrow> ImageFile list" where
  "handleImageUpload uuid fs images =
     (case fs of None \<Rightarrow> images | Some fs \<Rightarrow> images @ newImages uuid 0 fs)"

fun newAttachments :: "(nat \<Rightarrow> string) \<Rightarrow> nat \<Rightarrow> File list \<Rightarrow> Attachment list" where
  "newAttachments uuid k [] = []"
| "newAttachments uuid k (f # fs) =
     \<lparr>att_id = Some (uuid k), att_name = file_name f, att_file = f, att_size = file_size f\<rparr>
       # newAttachments uuid (Suc k) fs"

definition handleAttachmentUpload ::
  "(nat \<Rightarrow> string) \<Rightarrow> File list option \<Rightarrow> Attachment list \<Rightarrow> Attachment list" where
  "handleAttachmentUpload uuid fs attachments =
     (case fs of None \<Rightarrow> attachments | Some fs \<Rightarrow> attachments @ newAttachments uuid 0 fs)"

subsection \<open>Replacing the content of an image\<close>

text \<open>
  \<^verbatim>\<open>handleImageSave\<close>: the file reader turns the edited file into a data URL, and the
  image whose id is the id of \<^verbatim>\<open>editingImage\<close> gets the new file and the new URL.
\<close>

definition handleImageSave ::
  "ImageFile option \<Rightarrow> File \<Rightarrow> ImageFile list \<Rightarrow> ImageFile list" where
  "handleImageSave editingImage editedImage prev =
     (let url = file_bytes editedImage in
        map (\<lambda>img. if Some (img_id img) = map_option img_id editingImage
                    then img\<lparr>img_file := editedImage, img_url := url\<rparr>
                    else img) prev)"

subsection \<open>Renaming\<close>

datatype rename_action = OnRename string | OnCancel

definition handleSubmit :: "string \<Rightarrow> string \<Rightarrow> rename_action" where
  "handleSubmit name value =
     (let trimmedValue = trim value in
        if trimmedValue \<noteq> [] \<and> trimmedValue \<noteq> name then OnRename trimmedValue
        else OnCancel)"

fun image_onRename ::
  "(nat \<Rightarrow> nat) \<Rightarrow> nat \<Rightarrow> ImageFile object list \<Rightarrow> ImageFile object \<Rightarrow> string
     \<Rightarrow> ImageFile object list" where
  "image_onRename alloc k [] image' newName = []"
| "image_onRename alloc k (img # images) image' newName =
     (if reference img = reference image'
      then Object (alloc k) ((fields img)\<lparr>img_name := newName\<rparr>)
             # image_onRename alloc (Suc k) images image' newName
      else img # image_onRename alloc k images image' newName)"

fun attachment_onRename ::
  "(nat \<Rightarrow> nat) \<Rightarrow> nat \<Rightarrow> Attachment object list \<Rightarrow> Attachment object \<Rightarrow> string
     \<Rightarrow> Attachment object list" where
  "attachment_onRename alloc k [] attachment newName = []"
| "attachment_onRename alloc k (att # attachments) attachment newName =
     (if reference att = reference attachment
      then Object (alloc k) ((fields att)\<lparr>att_name := newName\<rparr>)
             # attachment_onRename alloc (Suc k) attachments attachment newName
      else att # attachment_onRename alloc k attachments attachment newName)"

text \<open>
  The rename input of an image or attachment is created with the current name and the
  two callbacks; submitting the value \<open>value\<close> leaves these arrays. \<^verbatim>\<open>onCancel\<close> closes
  the input and sets neither array.
\<close>

definition image_rename_submit ::
  "(nat \<Rightarrow> nat) \<Rightarrow> ImageFile object list \<Rightarrow> ImageFile object \<Rightarrow> string
     \<Rightarrow> ImageFile object list" where
  "image_rename_submit alloc images image' value =
     (case handleSubmit (img_name (fields image')) value of
        OnRename newName \<Rightarrow> image_onRename alloc 0 images image' newName
      | OnCancel \<Rightarrow> images)"

definition attachment_rename_submit ::
  "(nat \<Rightarrow> nat) \<Rightarrow> Attachment object list \<Rightarrow> Attachment object \<Rightarrow> string
     \<Rightarrow> Attachment object list" where
  "attachment_rename_submit alloc attachments attachment value =
     (case handleSubmit (att_name (fields attachment)) value of
        OnRename newName \<Rightarrow> attachment_onRename alloc 0 attachments attachment newName
      | OnCancel \<Rightarrow> attachments)"

subsection \<open>Removing\<close>

definition image_delete :: "ImageFile object list \<Rightarrow> ImageFile object \<Rightarrow> ImageFile object list" where
  "image_delete images image' = filter (\<lambda>img. reference img \<noteq> reference image') images"

definition attachment_delete ::
  "Attachment object list \<Rightarrow> Attachment object \<Rightarrow> Attachment object list" where
  "attachment_delete attachments attachment =
     filter (\<lambda>a. reference a \<noteq> reference attachment) attachments"

subsection \<open>Resolving the references of the markdown text\<close>

text \<open>
  The component \<^verbatim>\<open>img\<close> renders the image it finds, or a box with the decoded source;
  the component \<^verbatim>\<open>a\<close> renders a download button for the attachment it finds, or an
  ordinary link. An exception of \<^verbatim>\<open>decodeURIComponent\<close> leaves the component.
\<close>

datatype img_result = ImgElement ImageFile | ImgNotFound string

definition components_img :: "string option \<Rightarrow> ImageFile list \<Rightarrow> js_error + img_result" where
  "components_img src images =
     (case decodeURIComponent (case src of None \<Rightarrow> [] | Some s \<Rightarrow> replace_bang_backslash s) of
        Inl e \<Rightarrow> Inl e
      | Inr decodedSrc \<Rightarrow>
          Inr (case find (\<lambda>img.
                     let imgName = img_name img;
                         imgPath = ''images/'' @ imgName;
                         cleanedSrc = trim (replace_markdown_punct decodedSrc);
                         cleanedImgName = trim (replace_markdown_punct imgName)
                     in cleanedSrc = imgPath \<or> cleanedSrc = imgName \<or>
                        endsWith cleanedSrc imgPath \<or> endsWith cleanedSrc imgName \<or>
                        cleanedSrc = cleanedImgName) images of
                 Some image' \<Rightarrow> ImgElement image'
               | None \<Rightarrow> ImgNotFound decodedSrc))"

datatype a_result = DownloadButton Attachment | PlainLink "string option"

definition components_a :: "string option \<Rightarrow> Attachment list \<Rightarrow> js_error + a_result" where
  "components_a href attachments =
     (case decodeURIComponent (case href of None \<Rightarrow> [] | Some h \<Rightarrow> h) of
        Inl e \<Rightarrow> Inl e
      | Inr decodedHref \<Rightarrow>
          Inr (case find (\<lambda>attach.
                     let attachPath = ''attachments/'' @ att_name attach
                     in decodedHref = attachPath \<or> endsWith decodedHref attachPath) attachments of
                 Some attachment \<Rightarrow> DownloadButton attachment
               | None \<Rightarrow> PlainLink href))"

section \<open>The words of the claims\<close>

text \<open>
  The words of the claims about decoding: the base file name of a path is what follows
  its last slash, and a name has an image extension when, upper-cased, it ends with a
  dot and one of the five extensions.
\<close>

definition final_segment :: "string \<Rightarrow> string" where
  "final_segment path = rev (takeWhile (\<lambda>c. c \<noteq> CHR ''/'') (rev path))"

definition image_extension :: "string \<Rightarrow> bool" where
  "image_extension fileName =
     (let u = map toUpperCase_ascii fileName in
        suffix ''.JPG'' u \<or> suffix ''.JPEG'' u \<or> suffix ''.PNG'' u \<or> suffix ''.GIF'' u \<or>
        suffix ''.WEBP'' u)"

text \<open>
  The entries that \<open>readZipFile\<close> turns into images and into attachments, and the
  image and the attachment it builds from an entry.
\<close>

definition is_image_entry :: "string \<times> ZipObject \<Rightarrow> bool" where
  "is_image_entry = (\<lambda>(path, zipEntry). \<not> entry_dir zipEntry \<and> image_extension (final_segment path))"

definition is_attachment_entry :: "string \<times> ZipObject \<Rightarrow> bool" where
  "is_attachment_entry =
     (\<lambda>(path, zipEntry). \<not> entry_dir zipEntry \<and> \<not> image_extension (final_segment path) \<and>
        path \<noteq> ''README.md'')"

definition image_of_entry :: "(nat \<Rightarrow> string) \<Rightarrow> nat \<times> string \<times> ZipObject \<Rightarrow> ImageFile" where
  "image_of_entry uuid =
     (\<lambda>(k, path, zipEntry).
        \<lparr>img_id = uuid k, img_name = final_segment path, img_url = entry_data zipEntry,
          img_file = \<lparr>file_name = final_segment path, file_bytes = entry_data zipEntry\<rparr>,
          img_size = length (entry_data zipEntry)\<rparr>)"

definition attachment_of_entry :: "string \<times> ZipObject \<Rightarrow> Attachment" where
  "attachment_of_entry =
     (\<lambda>(path, zipEntry).
        \<lparr>att_id = None, att_name = final_segment path,
          att_file = \<lparr>file_name = final_segment path, file_bytes = entry_data zipEntry\<rparr>,
          att_size = length (entry_data zipEntry)\<rparr>)"

text \<open>
  The content of a bundle, identifiers aside: the pairs of display name and content of
  its images and of its attachments. The content of an image is the bytes behind its
  URL, which the encoder writes; in every image the program builds they are the bytes
  of its file.
\<close>

definition image_pairs :: "ImageFile list \<Rightarrow> (string \<times> bytes) set" where
  "image_pairs images = set (map (\<lambda>i. (img_name i, img_url i)) images)"

definition attachment_pairs :: "Attachment list \<Rightarrow> (string \<times> bytes) set" where
  "attachment_pairs attachments = set (map (\<lambda>a. (att_name a, file_bytes (att_file a))) attachments)"

text \<open>The entry that \<open>createZipFile\<close> writes for an image and for an attachment.\<close>

definition image_entry :: "ImageFile \<Rightarrow> string \<times> ZipObject" where
  "image_entry i = (''images/'' @ img_name i, \<lparr>entry_dir = False, entry_data = img_url i\<rparr>)"

definition attachment_entry :: "Attachment \<Rightarrow> string \<times> ZipObject" where
  "attachment_entry a =
     (''attachments/'' @ att_name a, \<lparr>entry_dir = False, entry_data = file_bytes (att_file a)\<rparr>)"

text \<open>
  The words of the claims about resolution. The cleaned target is the decoded source
  with the markdown punctuation removed and trimmed, as the component computes it; a
  cleaned target accepts an image name by the five conditions of the claim.
\<close>

definition cleaned :: "string \<Rightarrow> string" where
  "cleaned s = trim (replace_markdown_punct s)"

definition accepted :: "string \<Rightarrow> string \<Rightarrow> bool" where
  "accepted target name =
     (target = ''images/'' @ name \<or> target = name \<or> suffix (''images/'' @ name) target \<or>
      suffix name target \<or> target = cleaned name)"

section \<open>Concrete inputs\<close>

definition example_uuid :: "nat \<Rightarrow> string" where
  "example_uuid k = replicate (Suc k) CHR ''u''"

definition cat_png :: ImageFile where
  "cat_png = \<lparr>img_id = ''id-cat'', img_name = ''cat.png'', img_url = [1, 2, 3],
     img_file = \<lparr>file_name = ''cat.png'', file_bytes = [1, 2, 3]\<rparr>, img_size = 3\<rparr>"

definition dog_png :: ImageFile where
  "dog_png = \<lparr>img_id = ''id-dog'', img_name = ''dog.png'', img_url = [4, 5],
     img_file = \<lparr>file_name = ''dog.png'', file_bytes = [4, 5]\<rparr>, img_size = 2\<rparr>"

definition notes_txt :: Attachment where
  "notes_txt = \<lparr>att_id = Some ''id-notes'', att_name = ''notes.txt'',
     att_file = \<lparr>file_name = ''notes.txt'', file_bytes = [1, 2, 3, 4, 5]\<rparr>, att_size = 5\<rparr>"

definition data_csv :: Attachment where
  "data_csv = \<lparr>att_id = Some ''id-data'', att_name = ''data.csv'',
     att_file = \<lparr>file_name = ''data.csv'', file_bytes = [9]\<rparr>, att_size = 1\<rparr>"

definition edited_cat :: File where
  "edited_cat = \<lparr>file_name = ''cat.png'', file_bytes = [7, 7, 7, 7, 7]\<rparr>"

definition a_png_first :: ImageFile where
  "a_png_first = \<lparr>img_id = ''id-first'', img_name = ''a.png'', img_url = [1],
     img_file = \<lparr>file_name = ''a.png'', file_bytes = [1]\<rparr>, img_size = 1\<rparr>"

definition a_png_second :: ImageFile where
  "a_png_second = \<lparr>img_id = ''id-second'', img_name = ''a.png'', img_url = [2, 2],
     img_file = \<lparr>file_name = ''a.png'', file_bytes = [2, 2]\<rparr>, img_size = 2\<rparr>"

definition pic_png :: Attachment where
  "pic_png = \<lparr>att_id = Some ''id-pic'', att_name = ''pic.png'',
     att_file = \<lparr>file_name = ''pic.png'', file_bytes = [7]\<rparr>, att_size = 1\<rparr>"

definition sketch :: ImageFile where
  "sketch = \<lparr>img_id = ''id-sketch'', img_name = ''sketch'', img_url = [8],
     img_file = \<lparr>file_name = ''sketch.png'', file_bytes = [8]\<rparr>, img_size = 1\<rparr>"

definition nested_png :: ImageFile where
  "nested_png = \<lparr>img_id = ''id-nested'', img_name = ''a/b.png'', img_url = [6],
     img_file = \<lparr>file_name = ''b.png'', file_bytes = [6]\<rparr>, img_size = 1\<rparr>"

definition my_photo :: ImageFile where
  "my_photo = \<lparr>img_id = ''id-photo'', img_name = ''my photo.png'', img_url = [5, 5],
     img_file = \<lparr>file_name = ''my photo.png'', file_bytes = [5, 5]\<rparr>, img_size = 2\<rparr>"

definition n_txt :: Attachment where
  "n_txt = \<lparr>att_id = None, att_name = ''n.txt'',
     att_file = \<lparr>file_name = ''n.txt'', file_bytes = [1]\<rparr>, att_size = 1\<rparr>"

definition two_n_txt :: files where
  "two_n_txt = [(''a/n.txt'', \<lparr>entry_dir = False, entry_data = [1]\<rparr>),
                (''b/n.txt'', \<lparr>entry_dir = False, entry_data = [1]\<rparr>)]"

definition first_n_txt :: "Attachment object" where
  "first_n_txt = Object 1 n_txt"

definition second_n_txt :: "Attachment object" where
  "second_n_txt = Object 2 n_txt"

definition cat_object :: "ImageFile object" where
  "cat_object = Object 1 cat_png"

definition dog_object :: "ImageFile object" where
  "dog_object = Object 2 dog_png"

definition example_alloc :: "nat \<Rightarrow> nat" where
  "example_alloc k = 100 + k"

definition dot_dot :: Attachment where
  "dot_dot = \<lparr>att_id = Some ''id-dots'', att_name = ''..'',
     att_file = \<lparr>file_name = ''..'', file_bytes = [3]\<rparr>, att_size = 1\<rparr>"

definition dot :: Attachment where
  "dot = \<lparr>att_id = Some ''id-dot'', att_name = ''.'',
     att_file = \<lparr>file_name = ''.'', file_bytes = [4]\<rparr>, att_size = 1\<rparr>"

definition unnamed :: Attachment where
  "unnamed = \<lparr>att_id = Some ''id-unnamed'', att_name = [],
     att_file = \<lparr>file_name = [], file_bytes = [5]\<rparr>, att_size = 1\<rparr>"

section \<open>The store: removing, renaming, replacing content, identifiers\<close>

text \<open>
  Claim C9. The handlers remove an asset by its object, which is its identity in the
  array. Removing is idempotent: removing the same object a second time leaves the
  array as the first removal left it, and removing an object that is not in the array
  leaves the array as it is; after a removal the object is not in the array. Both
  handlers are filters, which raise nothing.
\<close>

theorem remove_idempotent:
  "image_delete (image_delete images image') image' = image_delete images image' \<and>
   (reference image' \<notin> reference ` set images \<longrightarrow> image_delete images image' = images) \<and>
   reference image' \<notin> reference ` set (image_delete images image') \<and>
   attachment_delete (attachment_delete attachments attachment) attachment =
     attachment_delete attachments attachment \<and>
   (reference attachment \<notin> reference ` set attachments \<longrightarrow>
      attachment_delete attachments attachment = attachments) \<and>
   reference attachment \<notin> reference ` set (attachment_delete attachments attachment)"
  by (auto simp: image_delete_def attachment_delete_def filter_id_conv image_iff)

text \<open>
  The two attachments read from the entries \<^verbatim>\<open>a/n.txt\<close> and \<^verbatim>\<open>b/n.txt\<close> with the same
  bytes have the same values in all fields and are two objects. Removing the first
  leaves the second, and removing the first again, which is then not in the array,
  leaves the second.
\<close>

theorem remove_idempotent_witness:
  "zc_attachments (readZipFile example_uuid two_n_txt) = [fields first_n_txt, fields second_n_txt] \<and>
   fields first_n_txt = fields second_n_txt \<and>
   attachment_delete [first_n_txt, second_n_txt] first_n_txt = [second_n_txt] \<and>
   reference first_n_txt \<notin> reference ` set [second_n_txt] \<and>
   attachment_delete [second_n_txt] first_n_txt = [second_n_txt] \<and>
   attachment_delete (attachment_delete [first_n_txt, second_n_txt] first_n_txt) first_n_txt =
     [second_n_txt] \<and>
   image_delete [cat_object, dog_object] dog_object = [cat_object] \<and>
   reference dog_object \<notin> reference ` set [cat_object] \<and>
   image_delete [cat_object] dog_object = [cat_object] \<and>
   image_delete (image_delete [cat_object, dog_object] dog_object) dog_object = [cat_object]"
proof -
  have "zc_attachments (readZipFile example_uuid two_n_txt) = [n_txt, n_txt]"
    by code_simp
  moreover have "attachment_delete [first_n_txt, second_n_txt] first_n_txt = [second_n_txt]"
    and "image_delete [cat_object, dog_object] dog_object = [cat_object]"
    by (simp_all add: attachment_delete_def image_delete_def first_n_txt_def second_n_txt_def
          cat_object_def dog_object_def)
  ultimately show ?thesis
    using remove_idempotent [of "[cat_object]" dog_object "[second_n_txt]" first_n_txt]
    by (simp add: first_n_txt_def second_n_txt_def cat_object_def dog_object_def)
qed

lemma image_onRename_names:
  "map (\<lambda>img. img_name (fields img)) (image_onRename alloc k images image' newName) =
     map (\<lambda>img. if reference img = reference image' then newName else img_name (fields img))
       images"
  by (induction images arbitrary: k) simp_all

lemma image_onRename_rest:
  "map (\<lambda>img. img_id (fields img)) (image_onRename alloc k images image' newName) =
     map (\<lambda>img. img_id (fields img)) images"
  "map (\<lambda>img. img_url (fields img)) (image_onRename alloc k images image' newName) =
     map (\<lambda>img. img_url (fields img)) images"
  "map (\<lambda>img. img_file (fields img)) (image_onRename alloc k images image' newName) =
     map (\<lambda>img. img_file (fields img)) images"
  "map (\<lambda>img. img_size (fields img)) (image_onRename alloc k images image' newName) =
     map (\<lambda>img. img_size (fields img)) images"
  by (induction images arbitrary: k) simp_all

lemma attachment_onRename_names:
  "map (\<lambda>att. att_name (fields att))
       (attachment_onRename alloc k attachments attachment newName) =
     map (\<lambda>att. if reference att = reference attachment then newName
                  else att_name (fields att)) attachments"
  by (induction attachments arbitrary: k) simp_all

lemma attachment_onRename_rest:
  "map (\<lambda>att. att_id (fields att))
       (attachment_onRename alloc k attachments attachment newName) =
     map (\<lambda>att. att_id (fields att)) attachments"
  "map (\<lambda>att. att_file (fields att))
       (attachment_onRename alloc k attachments attachment newName) =
     map (\<lambda>att. att_file (fields att)) attachments"
  "map (\<lambda>att. att_size (fields att))
       (attachment_onRename alloc k attachments attachment newName) =
     map (\<lambda>att. att_size (fields att)) attachments"
  by (induction attachments arbitrary: k) simp_all

lemma image_rename_submit_eq:
  "image_rename_submit alloc images image' value =
     (if trim value \<noteq> [] \<and> trim value \<noteq> img_name (fields image')
      then image_onRename alloc 0 images image' (trim value)
      else images)"
  by (simp add: image_rename_submit_def handleSubmit_def Let_def)

lemma attachment_rename_submit_eq:
  "attachment_rename_submit alloc attachments attachment value =
     (if trim value \<noteq> [] \<and> trim value \<noteq> att_name (fields attachment)
      then attachment_onRename alloc 0 attachments attachment (trim value)
      else attachments)"
  by (simp add: attachment_rename_submit_def handleSubmit_def Let_def)

lemma trim_blank: "trim ''   '' = []"
  by code_simp

lemma trim_puppy: "trim ''  puppy.png '' = ''puppy.png''"
  by code_simp

lemma trim_cat: "trim ''cat.png'' = ''cat.png''"
  by code_simp

text \<open>
  Claim C8, as stated: a rename to a string that trims to the empty string is rejected
  with \<^verbatim>\<open>InvalidName\<close>. The program has no such error and signals nothing: the blank
  value takes the branch \<^verbatim>\<open>onCancel\<close> that submitting the unchanged name takes, and
  the array is the one before.
\<close>

theorem handleSubmit_blank_is_cancel:
  "handleSubmit ''cat.png'' ''   '' = OnCancel \<and>
   handleSubmit ''cat.png'' ''cat.png'' = OnCancel \<and>
   image_rename_submit example_alloc [cat_object] cat_object ''   '' = [cat_object] \<and>
   image_rename_submit example_alloc [cat_object] cat_object ''cat.png'' = [cat_object]"
  by (simp add: image_rename_submit_eq handleSubmit_def trim_blank trim_cat cat_object_def
        cat_png_def)

text \<open>
  Claim C8, amended. The input calls \<^verbatim>\<open>onCancel\<close> exactly when the value trims to the
  empty string or to the current name, and no error is signalled. A rename whose value
  trims to the empty string, or to the current name, leaves the array as it is, so the
  prior name is kept. A rename to a value that trims to a name that is neither empty
  nor the current one gives the trimmed value as name to the renamed object and changes
  the name of no other object, also of none with the same values in all fields; and no
  rename changes the identifier, the URL, the file or the size of any asset.
\<close>

theorem rename_cancels_blank_and_changes_only_name:
  "(handleSubmit name value = OnCancel) = (trim value = [] \<or> trim value = name) \<and>
   (trim value = [] \<or> trim value = img_name (fields image') \<longrightarrow>
      image_rename_submit alloc images image' value = images) \<and>
   (trim value = [] \<or> trim value = att_name (fields attachment) \<longrightarrow>
      attachment_rename_submit alloc attachments attachment value = attachments) \<and>
   (trim value \<noteq> [] \<and> trim value \<noteq> img_name (fields image') \<longrightarrow>
      map (\<lambda>img. img_name (fields img)) (image_rename_submit alloc images image' value) =
        map (\<lambda>img. if reference img = reference image' then trim value
                     else img_name (fields img)) images) \<and>
   (trim value \<noteq> [] \<and> trim value \<noteq> att_name (fields attachment) \<longrightarrow>
      map (\<lambda>att. att_name (fields att))
          (attachment_rename_submit alloc attachments attachment value) =
        map (\<lambda>att. if reference att = reference attachment then trim value
                     else att_name (fields att)) attachments) \<and>
   map (\<lambda>img. img_id (fields img)) (image_rename_submit alloc images image' value) =
     map (\<lambda>img. img_id (fields img)) images \<and>
   map (\<lambda>img. img_url (fields img)) (image_rename_submit alloc images image' value) =
     map (\<lambda>img. img_url (fields img)) images \<and>
   map (\<lambda>img. img_file (fields img)) (image_rename_submit alloc images image' value) =
     map (\<lambda>img. img_file (fields img)) images \<and>
   map (\<lambda>img. img_size (fields img)) (image_rename_submit alloc images image' value) =
     map (\<lambda>img. img_size (fields img)) images \<and>
   map (\<lambda>att. att_id (fields att))
       (attachment_rename_submit alloc attachments attachment value) =
     map (\<lambda>att. att_id (fields att)) attachments \<and>
   map (\<lambda>att. att_file (fields att))
       (attachment_rename_submit alloc attachments attachment value) =
     map (\<lambda>att. att_file (fields att)) attachments \<and>
   map (\<lambda>att. att_size (fields att))
       (attachment_rename_submit alloc attachments attachment value) =
     map (\<lambda>att. att_size (fields att)) attachments"
proof -
  have "(handleSubmit name value = OnCancel) = (trim value = [] \<or> trim value = name)"
    by (auto simp: handleSubmit_def Let_def)
  then show ?thesis
    by (simp add: image_rename_submit_eq attachment_rename_submit_eq
          image_onRename_names image_onRename_rest attachment_onRename_names
          attachment_onRename_rest)
qed

theorem rename_cancels_blank_and_changes_only_name_witness:
  "trim ''   '' = [] \<and>
   handleSubmit ''cat.png'' ''   '' = OnCancel \<and>
   image_rename_submit example_alloc [cat_object, dog_object] cat_object ''   '' =
     [cat_object, dog_object] \<and>
   attachment_rename_submit example_alloc [first_n_txt, second_n_txt] first_n_txt ''   '' =
     [first_n_txt, second_n_txt] \<and>
   trim ''  puppy.png '' \<noteq> [] \<and>
   trim ''  puppy.png '' \<noteq> img_name (fields dog_object) \<and>
   trim ''  puppy.png '' \<noteq> att_name (fields first_n_txt) \<and>
   map (\<lambda>img. img_name (fields img))
       (image_rename_submit example_alloc [cat_object, dog_object] dog_object ''  puppy.png '') =
     [''cat.png'', ''puppy.png''] \<and>
   map (\<lambda>att. att_name (fields att))
       (attachment_rename_submit example_alloc [first_n_txt, second_n_txt] first_n_txt
          ''  puppy.png '') =
     [''puppy.png'', ''n.txt''] \<and>
   map (\<lambda>img. img_id (fields img))
       (image_rename_submit example_alloc [cat_object, dog_object] dog_object ''  puppy.png '') =
     [''id-cat'', ''id-dog''] \<and>
   map (\<lambda>img. img_size (fields img))
       (image_rename_submit example_alloc [cat_object, dog_object] dog_object ''  puppy.png '') =
     [3, 2]"
  using rename_cancels_blank_and_changes_only_name
          [of "''cat.png''" "''   ''" cat_object example_alloc "[cat_object, dog_object]"
              first_n_txt "[first_n_txt, second_n_txt]"]
        rename_cancels_blank_and_changes_only_name
          [of "''cat.png''" "''  puppy.png ''" dog_object example_alloc "[cat_object, dog_object]"
              first_n_txt "[first_n_txt, second_n_txt]"]
  by (simp add: trim_blank trim_puppy cat_object_def dog_object_def cat_png_def dog_png_def
        first_n_txt_def second_n_txt_def n_txt_def)

text \<open>
  Claim C3. The size of an asset is the number of bytes of its content after every
  change. \<^verbatim>\<open>handleImageSave\<close> replaces the file and the URL of the edited image and
  leaves the size: an image of 3 bytes whose content is replaced by 5 bytes keeps size 3.
\<close>

theorem handleImageSave_keeps_old_size:
  "img_size cat_png = length (file_bytes (img_file cat_png)) \<and>
   map (\<lambda>img. (img_size img, length (file_bytes (img_file img)), length (img_url img)))
     (handleImageSave (Some cat_png) edited_cat [cat_png]) = [(3, 5, 5)]"
  by (simp add: handleImageSave_def cat_png_def edited_cat_def)

text \<open>
  Claim C4. Every image and attachment gets an identifier when it enters the arrays.
  \<^verbatim>\<open>readZipFile\<close> gives an identifier to each image and none to an attachment: the
  attachment read from the entry \<^verbatim>\<open>attachments/notes.txt\<close> has no \<^verbatim>\<open>id\<close>.
\<close>

theorem readZipFile_attachment_without_id:
  "map att_id (zc_attachments (readZipFile example_uuid
      [(''attachments/notes.txt'', \<lparr>entry_dir = False, entry_data = [1, 2, 3, 4, 5]\<rparr>)])) = [None]"
  by code_simp

section \<open>Properties of the archive table\<close>

lemma map_of_files_put:
  "map_of (files_put k v fs) k' = (if k' = k then Some v else map_of fs k')"
  by (induction fs) auto

lemma files_put_fresh: "map_of fs k = None \<Longrightarrow> files_put k v fs = fs @ [(k, v)]"
  by (induction fs) (auto split: if_splits)

lemma set_files_put:
  "set (files_put k v fs) \<subseteq> insert (k, v) (set fs)"
  by (induction fs) (auto split: if_splits)

lemma keys_files_put: "fst ` set (files_put k v fs) = insert k (fst ` set fs)"
proof (rule set_eqI)
  fix x
  have "x \<in> fst ` set (files_put k v fs) \<longleftrightarrow> map_of (files_put k v fs) x \<noteq> None"
    by (simp add: map_of_eq_None_iff)
  also have "\<dots> \<longleftrightarrow> x = k \<or> map_of fs x \<noteq> None"
    by (simp add: map_of_files_put)
  also have "\<dots> \<longleftrightarrow> x \<in> insert k (fst ` set fs)"
    by (simp add: map_of_eq_None_iff)
  finally show "x \<in> fst ` set (files_put k v fs) \<longleftrightarrow> x \<in> insert k (fst ` set fs)" .
qed

lemma distinct_files_put:
  "distinct (map fst fs) \<Longrightarrow> distinct (map fst (files_put k v fs))"
proof (induction fs)
  case Nil
  then show ?case by simp
next
  case (Cons a fs)
  obtain k' v' where a: "a = (k', v')" by (cases a)
  show ?case
  proof (cases "k' = k")
    case True
    with Cons.prems a show ?thesis by simp
  next
    case False
    have "k' \<notin> fst ` set (files_put k v fs)"
      using Cons.prems a False by (simp add: keys_files_put)
    with Cons a False show ?thesis by simp
  qed
qed

lemma folderAdd_present:
  "map_of fs (forceTrailingSlash name) \<noteq> None \<Longrightarrow> folderAdd name fs = fs"
  by (subst folderAdd.simps) (auto simp: Let_def)

lemma folderAdd_preserves:
  "map_of fs k = Some v \<Longrightarrow> map_of (folderAdd name fs) k = Some v"
proof (induction name fs rule: folderAdd.induct)
  case (1 name fs)
  let ?n = "forceTrailingSlash name"
  show ?case
  proof (cases "map_of fs ?n = None")
    case False
    then have "folderAdd name fs = fs" by (simp add: folderAdd_present)
    with "1.prems" show ?thesis by simp
  next
    case True
    with "1.prems" have ne: "k \<noteq> ?n" by auto
    let ?fs' = "if parentFolder ?n \<noteq> [] then folderAdd (parentFolder ?n) fs else fs"
    have "map_of ?fs' k = Some v"
      using "1.IH" [OF refl True refl] "1.prems" by simp
    moreover have "folderAdd name fs = files_put ?n \<lparr>entry_dir = True, entry_data = []\<rparr> ?fs'"
      using True by (subst folderAdd.simps) (simp add: Let_def)
    ultimately show ?thesis using ne by (simp add: map_of_files_put)
  qed
qed

lemma folderAdd_entries:
  "(k, e) \<in> set (folderAdd name fs) \<Longrightarrow> (k, e) \<in> set fs \<or> entry_dir e"
proof (induction name fs rule: folderAdd.induct)
  case (1 name fs)
  let ?n = "forceTrailingSlash name"
  show ?case
  proof (cases "map_of fs ?n = None")
    case False
    then have "folderAdd name fs = fs" by (simp add: folderAdd_present)
    with "1.prems" show ?thesis by simp
  next
    case True
    let ?fs' = "if parentFolder ?n \<noteq> [] then folderAdd (parentFolder ?n) fs else fs"
    have eq: "folderAdd name fs = files_put ?n \<lparr>entry_dir = True, entry_data = []\<rparr> ?fs'"
      using True by (subst folderAdd.simps) (simp add: Let_def)
    from "1.prems" eq have "(k, e) = (?n, \<lparr>entry_dir = True, entry_data = []\<rparr>) \<or> (k, e) \<in> set ?fs'"
      using set_files_put [of ?n "\<lparr>entry_dir = True, entry_data = []\<rparr>" ?fs'] by auto
    then show ?thesis
    proof
      assume "(k, e) = (?n, \<lparr>entry_dir = True, entry_data = []\<rparr>)"
      then show ?thesis by simp
    next
      assume in': "(k, e) \<in> set ?fs'"
      show ?thesis
      proof (cases "parentFolder ?n \<noteq> []")
        case True': True
        with in' have "(k, e) \<in> set (folderAdd (parentFolder ?n) fs)" by simp
        from "1.IH" [OF refl True refl True' this] show ?thesis .
      next
        case False
        with in' show ?thesis by simp
      qed
    qed
  qed
qed

lemma distinct_folderAdd:
  "distinct (map fst fs) \<Longrightarrow> distinct (map fst (folderAdd name fs))"
proof (induction name fs rule: folderAdd.induct)
  case (1 name fs)
  let ?n = "forceTrailingSlash name"
  show ?case
  proof (cases "map_of fs ?n = None")
    case False
    then have "folderAdd name fs = fs" by (simp add: folderAdd_present)
    with "1.prems" show ?thesis by simp
  next
    case True
    let ?fs' = "if parentFolder ?n \<noteq> [] then folderAdd (parentFolder ?n) fs else fs"
    have eq: "folderAdd name fs = files_put ?n \<lparr>entry_dir = True, entry_data = []\<rparr> ?fs'"
      using True by (subst folderAdd.simps) (simp add: Let_def)
    have "distinct (map fst ?fs')"
      using "1.IH" [OF refl True refl] "1.prems" by simp
    with eq show ?thesis by (simp add: distinct_files_put)
  qed
qed

lemma fileAdd_self:
  "map_of (fileAdd k d fs) k = Some \<lparr>entry_dir = False, entry_data = d\<rparr>"
  by (simp add: fileAdd_def Let_def map_of_files_put)

lemma fileAdd_preserves:
  "map_of fs k' = Some v \<Longrightarrow> k' \<noteq> k \<Longrightarrow> map_of (fileAdd k d fs) k' = Some v"
  by (simp add: fileAdd_def Let_def map_of_files_put folderAdd_preserves)

lemma fileAdd_entries:
  "(k', e) \<in> set (fileAdd k d fs) \<Longrightarrow>
     (k', e) = (k, \<lparr>entry_dir = False, entry_data = d\<rparr>) \<or> (k', e) \<in> set fs \<or> entry_dir e"
  using set_files_put [of k "\<lparr>entry_dir = False, entry_data = d\<rparr>"]
    folderAdd_entries [of k' e "parentFolder k" fs]
  by (auto simp: fileAdd_def Let_def split: if_splits)

lemma distinct_fileAdd:
  "distinct (map fst fs) \<Longrightarrow> distinct (map fst (fileAdd k d fs))"
  by (simp add: fileAdd_def Let_def distinct_files_put distinct_folderAdd)

lemma add_images_preserves:
  "map_of fs k = Some v \<Longrightarrow> k \<notin> (\<lambda>i. root @ img_name i) ` set images \<Longrightarrow>
     map_of (add_images root images fs) k = Some v"
  by (induction images arbitrary: fs) (auto simp: zip_file_def fileAdd_preserves)

lemma add_attachments_preserves:
  "map_of fs k = Some v \<Longrightarrow> k \<notin> (\<lambda>a. root @ att_name a) ` set attachments \<Longrightarrow>
     map_of (add_attachments root attachments fs) k = Some v"
  by (induction attachments arbitrary: fs) (auto simp: zip_file_def fileAdd_preserves)

lemma add_images_last:
  "n \<in> img_name ` set images \<Longrightarrow>
     map_of (add_images root images fs) (root @ n) =
       Some \<lparr>entry_dir = False,
             entry_data = img_url (last (filter (\<lambda>j. img_name j = n) images))\<rparr>"
proof (induction images arbitrary: fs)
  case Nil
  then show ?case by simp
next
  case (Cons x images)
  show ?case
  proof (cases "n \<in> img_name ` set images")
    case True
    then have ne: "filter (\<lambda>j. img_name j = n) images \<noteq> []"
      by (auto simp: filter_empty_conv)
    from Cons.IH [OF True, of "zip_file root (img_name x) (img_url x) fs"] ne
    show ?thesis by simp
  next
    case False
    with Cons.prems have nx: "img_name x = n" by auto
    from False have emp: "filter (\<lambda>j. img_name j = n) images = []"
      by (auto simp: filter_empty_conv)
    from False have "root @ n \<notin> (\<lambda>i. root @ img_name i) ` set images" by auto
    then show ?thesis
      using add_images_preserves [OF fileAdd_self, of "root @ n" root images "img_url x" fs] nx emp
      by (simp add: zip_file_def)
  qed
qed

lemma add_attachments_last:
  "n \<in> att_name ` set attachments \<Longrightarrow>
     map_of (add_attachments root attachments fs) (root @ n) =
       Some \<lparr>entry_dir = False,
             entry_data = file_bytes (att_file (last (filter (\<lambda>b. att_name b = n) attachments)))\<rparr>"
proof (induction attachments arbitrary: fs)
  case Nil
  then show ?case by simp
next
  case (Cons x attachments)
  show ?case
  proof (cases "n \<in> att_name ` set attachments")
    case True
    then have ne: "filter (\<lambda>b. att_name b = n) attachments \<noteq> []"
      by (auto simp: filter_empty_conv)
    from Cons.IH [OF True, of "zip_file root (att_name x) (file_bytes (att_file x)) fs"] ne
    show ?thesis by simp
  next
    case False
    with Cons.prems have nx: "att_name x = n" by auto
    from False have emp: "filter (\<lambda>b. att_name b = n) attachments = []"
      by (auto simp: filter_empty_conv)
    from False have "root @ n \<notin> (\<lambda>a. root @ att_name a) ` set attachments" by auto
    then show ?thesis
      using add_attachments_preserves [OF fileAdd_self, of "root @ n" root attachments
              "file_bytes (att_file x)" fs] nx emp
      by (simp add: zip_file_def)
  qed
qed


lemma add_images_entries:
  "(k, e) \<in> set (add_images root images fs) \<Longrightarrow>
     (k, e) \<in> set fs \<or> entry_dir e \<or> k \<in> (\<lambda>i. root @ img_name i) ` set images"
proof (induction images arbitrary: fs)
  case Nil
  then show ?case by simp
next
  case (Cons x images)
  from Cons.IH [of "zip_file root (img_name x) (img_url x) fs"] Cons.prems
  have "(k, e) \<in> set (fileAdd (root @ img_name x) (img_url x) fs) \<or> entry_dir e \<or>
        k \<in> (\<lambda>i. root @ img_name i) ` set images"
    by (simp add: zip_file_def)
  then show ?case
    using fileAdd_entries [of k e "root @ img_name x" "img_url x" fs] by auto
qed

lemma add_attachments_entries:
  "(k, e) \<in> set (add_attachments root attachments fs) \<Longrightarrow>
     (k, e) \<in> set fs \<or> entry_dir e \<or> k \<in> (\<lambda>a. root @ att_name a) ` set attachments"
proof (induction attachments arbitrary: fs)
  case Nil
  then show ?case by simp
next
  case (Cons x attachments)
  from Cons.IH [of "zip_file root (att_name x) (file_bytes (att_file x)) fs"] Cons.prems
  have "(k, e) \<in> set (fileAdd (root @ att_name x) (file_bytes (att_file x)) fs) \<or> entry_dir e \<or>
        k \<in> (\<lambda>a. root @ att_name a) ` set attachments"
    by (simp add: zip_file_def)
  then show ?case
    using fileAdd_entries [of k e "root @ att_name x" "file_bytes (att_file x)" fs] by auto
qed

lemma distinct_add_images:
  "distinct (map fst fs) \<Longrightarrow> distinct (map fst (add_images root images fs))"
  by (induction images arbitrary: fs) (simp_all add: zip_file_def distinct_fileAdd)

lemma distinct_add_attachments:
  "distinct (map fst fs) \<Longrightarrow> distinct (map fst (add_attachments root attachments fs))"
  by (induction attachments arbitrary: fs) (simp_all add: zip_file_def distinct_fileAdd)

lemma createZipFile_unfold:
  "createZipFile markdown images attachments =
     add_attachments ''attachments/'' attachments
       (folderAdd ''attachments''
          (add_images ''images/'' images
             (folderAdd ''images'' (fileAdd ''README.md'' (utf8encode markdown) []))))"
  by (simp add: createZipFile_def zip_folder_def zip_file_def forceTrailingSlash_def)

lemma createZipFile_image_entry:
  assumes "n \<in> img_name ` set images"
  shows "map_of (createZipFile markdown images attachments) (''images/'' @ n) =
           Some \<lparr>entry_dir = False,
                 entry_data = img_url (last (filter (\<lambda>j. img_name j = n) images))\<rparr>"
proof -
  have "''images/'' @ n \<notin> (\<lambda>a. ''attachments/'' @ att_name a) ` set attachments"
    by auto
  then show ?thesis
    unfolding createZipFile_unfold
    by (intro add_attachments_preserves folderAdd_preserves add_images_last assms)
qed

lemma createZipFile_attachment_entry:
  assumes "n \<in> att_name ` set attachments"
  shows "map_of (createZipFile markdown images attachments) (''attachments/'' @ n) =
           Some \<lparr>entry_dir = False,
                 entry_data = file_bytes (att_file (last (filter (\<lambda>b. att_name b = n) attachments)))\<rparr>"
  unfolding createZipFile_unfold by (rule add_attachments_last [OF assms])

lemma createZipFile_entries:
  assumes "(p, e) \<in> set (createZipFile markdown images attachments)" and "\<not> entry_dir e"
  shows "p = ''README.md'' \<or> p \<in> (\<lambda>i. ''images/'' @ img_name i) ` set images \<or>
         p \<in> (\<lambda>a. ''attachments/'' @ att_name a) ` set attachments"
proof -
  let ?z1 = "fileAdd ''README.md'' (utf8encode markdown) []"
  let ?z2 = "folderAdd ''images'' ?z1"
  let ?z3 = "add_images ''images/'' images ?z2"
  let ?z4 = "folderAdd ''attachments'' ?z3"
  from assms have "(p, e) \<in> set ?z4 \<or> p \<in> (\<lambda>a. ''attachments/'' @ att_name a) ` set attachments"
    unfolding createZipFile_unfold
    using add_attachments_entries [of p e "''attachments/''" attachments ?z4] by auto
  moreover have "(p, e) \<in> set ?z4 \<Longrightarrow> (p, e) \<in> set ?z3"
    using folderAdd_entries [of p e "''attachments''" ?z3] assms(2) by auto
  moreover have "(p, e) \<in> set ?z3 \<Longrightarrow>
      (p, e) \<in> set ?z2 \<or> p \<in> (\<lambda>i. ''images/'' @ img_name i) ` set images"
    using add_images_entries [of p e "''images/''" images ?z2] assms(2) by auto
  moreover have "(p, e) \<in> set ?z2 \<Longrightarrow> (p, e) \<in> set ?z1"
    using folderAdd_entries [of p e "''images''" ?z1] assms(2) by auto
  moreover have "(p, e) \<in> set ?z1 \<Longrightarrow> p = ''README.md''"
    using fileAdd_entries [of p e "''README.md''" "utf8encode markdown" "[]"] assms(2) by auto
  ultimately show ?thesis by blast
qed

lemma distinct_createZipFile:
  "distinct (map fst (createZipFile markdown images attachments))"
  unfolding createZipFile_unfold
  by (intro distinct_add_attachments distinct_folderAdd distinct_add_images distinct_fileAdd) simp

section \<open>Encoding: names and paths\<close>

text \<open>
  Claim C2, as stated: of two images named \<^verbatim>\<open>a.png\<close> the second is written to
  \<^verbatim>\<open>images/a-2.png\<close>. The encoder has no such renaming: the archive of the two images
  has the readme, the two folders and the single image path \<^verbatim>\<open>images/a.png\<close>, with the
  bytes of the second image.
\<close>

theorem createZipFile_two_a_png_one_path:
  "map fst (createZipFile [] [a_png_first, a_png_second] []) =
     [''README.md'', ''images/'', ''images/a.png'', ''attachments/''] \<and>
   map_of (createZipFile [] [a_png_first, a_png_second] []) ''images/a-2.png'' = None \<and>
   map_of (createZipFile [] [a_png_first, a_png_second] []) ''images/a.png'' =
     Some \<lparr>entry_dir = False, entry_data = [2, 2]\<rparr>"
  by code_simp

text \<open>
  Claim C2, amended. The encoder never changes a display name. Every image is written
  to \<^verbatim>\<open>images/<name>\<close> and every attachment to \<^verbatim>\<open>attachments/<name>\<close>; an asset written
  later replaces the entry of an earlier asset of the same name, so the entry holds the
  content of the last asset with that name. Every entry that is not a directory is the
  readme or stands at the path of one of the assets, and the paths of the archive are
  pairwise distinct.
\<close>

theorem createZipFile_same_name_last_wins:
  "(\<forall>n \<in> img_name ` set images.
      map_of (createZipFile markdown images attachments) (''images/'' @ n) =
        Some \<lparr>entry_dir = False,
              entry_data = img_url (last (filter (\<lambda>j. img_name j = n) images))\<rparr>) \<and>
   (\<forall>n \<in> att_name ` set attachments.
      map_of (createZipFile markdown images attachments) (''attachments/'' @ n) =
        Some \<lparr>entry_dir = False,
              entry_data = file_bytes (att_file (last (filter (\<lambda>b. att_name b = n) attachments)))\<rparr>) \<and>
   (\<forall>(p, e) \<in> set (createZipFile markdown images attachments).
      \<not> entry_dir e \<longrightarrow>
        p = ''README.md'' \<or> p \<in> (\<lambda>i. ''images/'' @ img_name i) ` set images \<or>
        p \<in> (\<lambda>a. ''attachments/'' @ att_name a) ` set attachments) \<and>
   distinct (map fst (createZipFile markdown images attachments))"
proof (intro conjI ballI)
  fix n assume "n \<in> img_name ` set images"
  then show "map_of (createZipFile markdown images attachments) (''images/'' @ n) =
        Some \<lparr>entry_dir = False,
              entry_data = img_url (last (filter (\<lambda>j. img_name j = n) images))\<rparr>"
    by (rule createZipFile_image_entry)
next
  fix n assume "n \<in> att_name ` set attachments"
  then show "map_of (createZipFile markdown images attachments) (''attachments/'' @ n) =
        Some \<lparr>entry_dir = False,
              entry_data = file_bytes (att_file (last (filter (\<lambda>b. att_name b = n) attachments)))\<rparr>"
    by (rule createZipFile_attachment_entry)
next
  fix x assume x: "x \<in> set (createZipFile markdown images attachments)"
  obtain p e where pe: "x = (p, e)" by (cases x)
  show "case x of (p, e) \<Rightarrow> \<not> entry_dir e \<longrightarrow>
        p = ''README.md'' \<or> p \<in> (\<lambda>i. ''images/'' @ img_name i) ` set images \<or>
        p \<in> (\<lambda>a. ''attachments/'' @ att_name a) ` set attachments"
    using createZipFile_entries [of p e markdown images attachments] x pe by auto
next
  show "distinct (map fst (createZipFile markdown images attachments))"
    by (rule distinct_createZipFile)
qed

theorem createZipFile_same_name_last_wins_witness:
  "''a.png'' \<in> img_name ` set [a_png_first, a_png_second] \<and>
   map_of (createZipFile ''hi'' [a_png_first, a_png_second] [notes_txt]) ''images/a.png'' =
     Some \<lparr>entry_dir = False, entry_data = [2, 2]\<rparr> \<and>
   ''notes.txt'' \<in> att_name ` set [notes_txt] \<and>
   map_of (createZipFile ''hi'' [a_png_first, a_png_second] [notes_txt]) ''attachments/notes.txt'' =
     Some \<lparr>entry_dir = False, entry_data = [1, 2, 3, 4, 5]\<rparr> \<and>
   distinct (map fst (createZipFile ''hi'' [a_png_first, a_png_second] [notes_txt]))"
  using createZipFile_same_name_last_wins [of "[a_png_first, a_png_second]" "''hi''" "[notes_txt]"]
  by (simp add: a_png_first_def a_png_second_def notes_txt_def)

section \<open>Decoding: what readZipFile returns\<close>

lemma endsWith_suffix: "endsWith s t \<longleftrightarrow> suffix t s"
proof
  assume "endsWith s t"
  then have "s = take (length s - length t) s @ t"
    by (metis append_take_drop_id endsWith_def)
  then show "suffix t s" by (metis suffixI)
next
  assume "suffix t s"
  then obtain p where "s = p @ t" by (auto simp: suffix_def)
  then show "endsWith s t" by (simp add: endsWith_def)
qed

lemma test_image_ext_iff: "test_image_ext fileName = image_extension fileName"
  by (simp add: test_image_ext_def image_extension_def endsWith_suffix Let_def)

lemma split_nonempty: "split c xs \<noteq> []"
  by (induction xs) (auto split: list.splits)

lemma split_append_sep: "split c (xs @ c # ys) = split c xs @ split c ys"
proof (induction xs)
  case Nil
  then show ?case by simp
next
  case (Cons x xs)
  obtain s ss where "split c xs = s # ss"
    using split_nonempty [of c xs] by (cases "split c xs") auto
  with Cons show ?case by simp
qed

lemma split_no_sep: "c \<notin> set xs \<Longrightarrow> split c xs = [xs]"
  by (induction xs) auto

lemma last_split: "last (split c path) = rev (takeWhile (\<lambda>x. x \<noteq> c) (rev path))"
proof (cases "c \<in> set path")
  case False
  then have tw: "takeWhile (\<lambda>x. x \<noteq> c) (rev path) = rev path"
    by (auto simp: takeWhile_eq_all_conv)
  show ?thesis unfolding tw using False by (simp add: split_no_sep)
next
  case True
  then have "\<exists>ys zs. rev path = ys @ c # zs \<and> c \<notin> set ys"
    by (intro split_list_first) simp
  then obtain ys zs where yz: "rev path = ys @ c # zs" "c \<notin> set ys"
    by blast
  then have path: "path = rev zs @ c # rev ys"
    by (metis rev_append rev.simps(2) rev_rev_ident append_assoc append_Cons append_Nil)
  have "takeWhile (\<lambda>x. x \<noteq> c) (ys @ c # zs) = ys @ takeWhile (\<lambda>x. x \<noteq> c) (c # zs)"
    by (rule takeWhile_append2) (use yz(2) in auto)
  then have tw: "takeWhile (\<lambda>x. x \<noteq> c) (rev path) = ys"
    using yz(1) by simp
  have "split c path = split c (rev zs) @ [rev ys]"
    using yz(2) by (simp add: path split_append_sep split_no_sep)
  with tw show ?thesis by simp
qed

lemma fileName_final_segment:
  "(case pop (split CHR ''/'' path) of None \<Rightarrow> [] | Some seg \<Rightarrow> seg) = final_segment path"
  by (simp add: pop_def split_nonempty last_split final_segment_def)

lemma readZipFile_loop_eq:
  "readZipFile_loop uuid k es images attachments =
     (images @ map (image_of_entry uuid) (enumerate k (filter is_image_entry es)),
      attachments @ map attachment_of_entry (filter is_attachment_entry es))"
proof (induction es arbitrary: k images attachments)
  case Nil
  then show ?case by simp
next
  case (Cons x es)
  obtain path zipEntry where x: "x = (path, zipEntry)" by (cases x)
  show ?case
    unfolding x
    by (simp add: Cons.IH fileName_final_segment test_image_ext_iff is_image_entry_def
          is_attachment_entry_def image_of_entry_def attachment_of_entry_def Let_def)
qed

lemma readZipFile_eq:
  "readZipFile uuid contents =
     \<lparr>zc_readme = (case map_of contents ''README.md'' of
                     None \<Rightarrow> []
                   | Some obj \<Rightarrow> if entry_dir obj then [] else utf8decode (entry_data obj)),
      zc_images = map (image_of_entry uuid) (enumerate 0 (filter is_image_entry contents)),
      zc_attachments = map attachment_of_entry (filter is_attachment_entry contents)\<rparr>"
  by (simp add: readZipFile_def readZipFile_loop_eq zip_file_get_def Let_def split: option.splits)

text \<open>
  Claim C7. Directory entries are skipped. Every other entry is classified by its base
  name, the final segment of its path: it becomes an image when the base name ends with
  one of the extensions jpg, jpeg, png, gif and webp (with the dot of the extension, in
  any case of the letters), and an attachment otherwise, unless its path is
  \<^verbatim>\<open>README.md\<close>. Either way the name is the base name, the content is the bytes of
  the entry and the size is their number; the order of the entries is kept.
\<close>

theorem readZipFile_classifies_by_extension:
  "zc_images (readZipFile uuid contents) =
     map (\<lambda>(k, path, zipEntry).
            \<lparr>img_id = uuid k, img_name = final_segment path, img_url = entry_data zipEntry,
              img_file = \<lparr>file_name = final_segment path, file_bytes = entry_data zipEntry\<rparr>,
              img_size = length (entry_data zipEntry)\<rparr>)
       (enumerate 0
          (filter (\<lambda>(path, zipEntry).
                     \<not> entry_dir zipEntry \<and> image_extension (final_segment path)) contents)) \<and>
   zc_attachments (readZipFile uuid contents) =
     map (\<lambda>(path, zipEntry).
            \<lparr>att_id = None, att_name = final_segment path,
              att_file = \<lparr>file_name = final_segment path, file_bytes = entry_data zipEntry\<rparr>,
              att_size = length (entry_data zipEntry)\<rparr>)
       (filter (\<lambda>(path, zipEntry).
                  \<not> entry_dir zipEntry \<and> \<not> image_extension (final_segment path) \<and>
                  path \<noteq> ''README.md'') contents)"
  by (simp add: readZipFile_eq is_image_entry_def is_attachment_entry_def image_of_entry_def
        attachment_of_entry_def)

lemma map_of_filter_key:
  "map_of (filter (\<lambda>(p, e). p = k) es) k = map_of es k"
  by (induction es) auto

lemma map_of_filter_other:
  "k' \<noteq> k \<Longrightarrow> map_of (filter (\<lambda>(p, e). p \<noteq> k) es) k' = map_of es k'"
  by (induction es) auto

lemma README_not_image: "\<not> image_extension (final_segment ''README.md'')"
  unfolding test_image_ext_iff [symmetric] fileName_final_segment [symmetric]
  by code_simp

lemma README_no_extension: "\<not> image_extension ''README.md''"
  unfolding test_image_ext_iff [symmetric] by code_simp

lemma filter_image_no_README:
  "filter is_image_entry (filter (\<lambda>(p, e). p \<noteq> ''README.md'') es) = filter is_image_entry es"
  by (induction es) (auto simp: is_image_entry_def README_not_image)

lemma filter_attachment_no_README:
  "filter is_attachment_entry (filter (\<lambda>(p, e). p \<noteq> ''README.md'') es) =
     filter is_attachment_entry es"
  by (induction es) (auto simp: is_attachment_entry_def)

lemma final_segment_append:
  "CHR ''/'' \<notin> set n \<Longrightarrow> final_segment (pre @ CHR ''/'' # n) = n"
proof -
  assume n: "CHR ''/'' \<notin> set n"
  have "takeWhile (\<lambda>c. c \<noteq> CHR ''/'') (rev n @ CHR ''/'' # rev pre) =
          rev n @ takeWhile (\<lambda>c. c \<noteq> CHR ''/'') (CHR ''/'' # rev pre)"
    by (rule takeWhile_append2) (use n in auto)
  then show ?thesis by (simp add: final_segment_def)
qed

text \<open>
  Claim C10. The readme text is the text of the entry at the path \<^verbatim>\<open>README.md\<close> (empty
  when there is none) and of no other entry: it stays the same when every other entry is
  removed. That entry gives no image and no attachment: removing it changes neither
  array. A file entry \<^verbatim>\<open>README.md\<close> below any folder becomes an attachment named
  \<^verbatim>\<open>README.md\<close> with the bytes of the entry.
\<close>

theorem readZipFile_readme_only_at_root:
  "zc_readme (readZipFile uuid contents) =
     (case map_of contents ''README.md'' of
        None \<Rightarrow> []
      | Some obj \<Rightarrow> if entry_dir obj then [] else utf8decode (entry_data obj)) \<and>
   zc_readme (readZipFile uuid (filter (\<lambda>(path, zipEntry). path = ''README.md'') contents)) =
     zc_readme (readZipFile uuid contents) \<and>
   zc_images (readZipFile uuid (filter (\<lambda>(path, zipEntry). path \<noteq> ''README.md'') contents)) =
     zc_images (readZipFile uuid contents) \<and>
   zc_attachments (readZipFile uuid (filter (\<lambda>(path, zipEntry). path \<noteq> ''README.md'') contents)) =
     zc_attachments (readZipFile uuid contents) \<and>
   ((folder @ ''/README.md'', zipEntry) \<in> set contents \<and> \<not> entry_dir zipEntry \<longrightarrow>
      \<lparr>att_id = None, att_name = ''README.md'',
        att_file = \<lparr>file_name = ''README.md'', file_bytes = entry_data zipEntry\<rparr>,
        att_size = length (entry_data zipEntry)\<rparr> \<in> set (zc_attachments (readZipFile uuid contents)))"
proof (intro conjI impI)
  show "zc_readme (readZipFile uuid contents) =
     (case map_of contents ''README.md'' of
        None \<Rightarrow> []
      | Some obj \<Rightarrow> if entry_dir obj then [] else utf8decode (entry_data obj))"
    by (simp add: readZipFile_eq)
  show "zc_readme (readZipFile uuid (filter (\<lambda>(path, zipEntry). path = ''README.md'') contents)) =
     zc_readme (readZipFile uuid contents)"
    by (simp add: readZipFile_eq map_of_filter_key)
  show "zc_images (readZipFile uuid (filter (\<lambda>(path, zipEntry). path \<noteq> ''README.md'') contents)) =
     zc_images (readZipFile uuid contents)"
    by (simp add: readZipFile_eq filter_image_no_README del: filter_filter)
  show "zc_attachments (readZipFile uuid (filter (\<lambda>(path, zipEntry). path \<noteq> ''README.md'') contents)) =
     zc_attachments (readZipFile uuid contents)"
    by (simp add: readZipFile_eq filter_attachment_no_README del: filter_filter)
next
  assume a: "(folder @ ''/README.md'', zipEntry) \<in> set contents \<and> \<not> entry_dir zipEntry"
  have fs: "final_segment (folder @ ''/README.md'') = ''README.md''"
    using final_segment_append [of "''README.md''" folder] by simp
  have "is_attachment_entry (folder @ ''/README.md'', zipEntry)"
    using a README_no_extension by (simp add: is_attachment_entry_def fs)
  with a have "(folder @ ''/README.md'', zipEntry) \<in> set (filter is_attachment_entry contents)"
    by simp
  then have "attachment_of_entry (folder @ ''/README.md'', zipEntry)
               \<in> set (zc_attachments (readZipFile uuid contents))"
    by (simp add: readZipFile_eq del: set_filter)
  then show "\<lparr>att_id = None, att_name = ''README.md'',
        att_file = \<lparr>file_name = ''README.md'', file_bytes = entry_data zipEntry\<rparr>,
        att_size = length (entry_data zipEntry)\<rparr> \<in> set (zc_attachments (readZipFile uuid contents))"
    by (simp add: attachment_of_entry_def fs)
qed

lemma utf8decode_hi: "utf8decode [104, 105] = ''hi''"
  by code_simp

theorem readZipFile_readme_only_at_root_witness:
  "(''docs'' @ ''/README.md'', \<lparr>entry_dir = False, entry_data = [110, 111]\<rparr>)
      \<in> set [(''README.md'', \<lparr>entry_dir = False, entry_data = [104, 105]\<rparr>),
              (''docs/README.md'', \<lparr>entry_dir = False, entry_data = [110, 111]\<rparr>)] \<and>
   zc_readme (readZipFile example_uuid
     [(''README.md'', \<lparr>entry_dir = False, entry_data = [104, 105]\<rparr>),
      (''docs/README.md'', \<lparr>entry_dir = False, entry_data = [110, 111]\<rparr>)]) = ''hi'' \<and>
   \<lparr>att_id = None, att_name = ''README.md'',
     att_file = \<lparr>file_name = ''README.md'', file_bytes = [110, 111]\<rparr>, att_size = 2\<rparr>
      \<in> set (zc_attachments (readZipFile example_uuid
            [(''README.md'', \<lparr>entry_dir = False, entry_data = [104, 105]\<rparr>),
             (''docs/README.md'', \<lparr>entry_dir = False, entry_data = [110, 111]\<rparr>)]))"
  using readZipFile_readme_only_at_root [of example_uuid
          "[(''README.md'', \<lparr>entry_dir = False, entry_data = [104, 105]\<rparr>),
            (''docs/README.md'', \<lparr>entry_dir = False, entry_data = [110, 111]\<rparr>)]"
          "''docs''" "\<lparr>entry_dir = False, entry_data = [110, 111]\<rparr>"]
  by (simp add: utf8decode_hi numeral_2_eq_2)

section \<open>Round trip\<close>

text \<open>
  Claim C1, as stated, fails for bundles with unique names: an attachment named
  \<^verbatim>\<open>pic.png\<close> comes back as an image, an image named \<^verbatim>\<open>sketch\<close> comes back as an
  attachment, and an image named \<^verbatim>\<open>a/b.png\<close> comes back under the name \<^verbatim>\<open>b.png\<close>.
  Reading the archive resolves the names of its entries: an attachment named \<^verbatim>\<open>..\<close>
  comes back under the empty name and one named \<^verbatim>\<open>.\<close> under the name
  \<^verbatim>\<open>attachments\<close>; and an attachment with the empty name is written over the folder
  entry, read as a directory and lost.
\<close>

theorem roundtrip_names_not_kept:
  "distinct (map att_name [pic_png]) \<and>
   attachment_pairs (zc_attachments (readZipFile_archive example_uuid
       (createZipFile_archive ''text'' [] [pic_png]))) \<noteq> attachment_pairs [pic_png] \<and>
   image_pairs (zc_images (readZipFile_archive example_uuid
       (createZipFile_archive ''text'' [] [pic_png]))) \<noteq> image_pairs [] \<and>
   distinct (map img_name [sketch]) \<and>
   image_pairs (zc_images (readZipFile_archive example_uuid
       (createZipFile_archive ''text'' [sketch] []))) \<noteq> image_pairs [sketch] \<and>
   distinct (map img_name [nested_png]) \<and>
   map img_name (zc_images (readZipFile_archive example_uuid
       (createZipFile_archive ''text'' [nested_png] []))) = [''b.png''] \<and>
   distinct (map att_name [dot_dot]) \<and>
   map att_name (zc_attachments (readZipFile_archive example_uuid
       (createZipFile_archive ''text'' [] [dot_dot]))) = [[]] \<and>
   distinct (map att_name [dot]) \<and>
   map att_name (zc_attachments (readZipFile_archive example_uuid
       (createZipFile_archive ''text'' [] [dot]))) = [''attachments''] \<and>
   distinct (map att_name [unnamed]) \<and>
   zc_attachments (readZipFile_archive example_uuid
       (createZipFile_archive ''text'' [] [unnamed])) = []"
  by code_simp

text \<open>The archive of a bundle with unique names that hold no slash, entry by entry.\<close>

lemma parentFolder_child:
  assumes "n \<noteq> []" and "CHR ''/'' \<notin> set n"
  shows "parentFolder (r @ CHR ''/'' # n) = r"
proof -
  have l: "last (r @ CHR ''/'' # n) \<noteq> CHR ''/''"
    using assms by (metis last_appendR last_ConsR last_in_set list.distinct(1))
  have "dropWhile (\<lambda>x. x \<noteq> CHR ''/'') (rev n @ CHR ''/'' # rev r) =
          dropWhile (\<lambda>x. x \<noteq> CHR ''/'') (CHR ''/'' # rev r)"
    by (rule dropWhile_append2) (use assms(2) in auto)
  then have "lastIndexOf (r @ CHR ''/'' # n) CHR ''/'' = int (length r)"
    by (simp add: lastIndexOf_def)
  with l show ?thesis by (simp add: parentFolder_def Let_def)
qed

lemma fileAdd_in_folder:
  assumes "n \<noteq> []" and "CHR ''/'' \<notin> set n" and "r \<noteq> []" and "last r \<noteq> CHR ''/''"
    and "map_of fs (r @ ''/'') \<noteq> None" and "map_of fs (r @ CHR ''/'' # n) = None"
  shows "fileAdd (r @ CHR ''/'' # n) d fs =
           fs @ [(r @ CHR ''/'' # n, \<lparr>entry_dir = False, entry_data = d\<rparr>)]"
proof -
  have "forceTrailingSlash r = r @ ''/''"
    using assms(3,4) by (simp add: forceTrailingSlash_def)
  with assms(5) have "folderAdd r fs = fs" by (simp add: folderAdd_present)
  then show ?thesis
    using assms by (simp add: fileAdd_def parentFolder_child files_put_fresh)
qed


lemma map_of_append_None:
  "map_of (xs @ ys) k = None \<longleftrightarrow> map_of xs k = None \<and> map_of ys k = None"
  by (simp add: map_of_append map_add_None)

lemma add_images_fresh:
  assumes "map_of fs ''images/'' \<noteq> None"
    and "distinct (map img_name images)"
    and "\<forall>i \<in> set images. img_name i \<noteq> [] \<and> CHR ''/'' \<notin> set (img_name i)"
    and "\<forall>i \<in> set images. map_of fs (''images/'' @ img_name i) = None"
  shows "add_images ''images/'' images fs = fs @ map image_entry images"
  using assms
proof (induction images arbitrary: fs)
  case Nil
  then show ?case by simp
next
  case (Cons x images)
  let ?e = "(''images/'' @ img_name x, \<lparr>entry_dir = False, entry_data = img_url x\<rparr>)"
  have step: "fileAdd (''images/'' @ img_name x) (img_url x) fs = fs @ [?e]"
    using fileAdd_in_folder [of "img_name x" "''images''" fs "img_url x"] Cons.prems
    by simp
  have "add_images ''images/'' images (fs @ [?e]) = (fs @ [?e]) @ map image_entry images"
  proof (rule Cons.IH)
    show "map_of (fs @ [?e]) ''images/'' \<noteq> None"
      using Cons.prems(1) by (simp add: map_of_append_None)
    show "distinct (map img_name images)" using Cons.prems(2) by simp
    show "\<forall>i \<in> set images. img_name i \<noteq> [] \<and> CHR ''/'' \<notin> set (img_name i)"
      using Cons.prems(3) by simp
    show "\<forall>i \<in> set images. map_of (fs @ [?e]) (''images/'' @ img_name i) = None"
    proof
      fix i assume i: "i \<in> set images"
      with Cons.prems(2) have "img_name x \<noteq> img_name i" by auto
      moreover from i Cons.prems(4) have "map_of fs (''images/'' @ img_name i) = None" by simp
      ultimately show "map_of (fs @ [?e]) (''images/'' @ img_name i) = None"
        by (simp add: map_of_append_None)
    qed
  qed
  with step show ?case by (simp add: zip_file_def image_entry_def)
qed

lemma add_attachments_fresh:
  assumes "map_of fs ''attachments/'' \<noteq> None"
    and "distinct (map att_name attachments)"
    and "\<forall>a \<in> set attachments. att_name a \<noteq> [] \<and> CHR ''/'' \<notin> set (att_name a)"
    and "\<forall>a \<in> set attachments. map_of fs (''attachments/'' @ att_name a) = None"
  shows "add_attachments ''attachments/'' attachments fs = fs @ map attachment_entry attachments"
  using assms
proof (induction attachments arbitrary: fs)
  case Nil
  then show ?case by simp
next
  case (Cons x attachments)
  let ?e = "(''attachments/'' @ att_name x,
             \<lparr>entry_dir = False, entry_data = file_bytes (att_file x)\<rparr>)"
  have step: "fileAdd (''attachments/'' @ att_name x) (file_bytes (att_file x)) fs = fs @ [?e]"
    using fileAdd_in_folder [of "att_name x" "''attachments''" fs "file_bytes (att_file x)"]
      Cons.prems
    by simp
  have "add_attachments ''attachments/'' attachments (fs @ [?e]) =
          (fs @ [?e]) @ map attachment_entry attachments"
  proof (rule Cons.IH)
    show "map_of (fs @ [?e]) ''attachments/'' \<noteq> None"
      using Cons.prems(1) by (simp add: map_of_append_None)
    show "distinct (map att_name attachments)" using Cons.prems(2) by simp
    show "\<forall>a \<in> set attachments. att_name a \<noteq> [] \<and> CHR ''/'' \<notin> set (att_name a)"
      using Cons.prems(3) by simp
    show "\<forall>a \<in> set attachments. map_of (fs @ [?e]) (''attachments/'' @ att_name a) = None"
    proof
      fix a assume a: "a \<in> set attachments"
      with Cons.prems(2) have "att_name x \<noteq> att_name a" by auto
      moreover from a Cons.prems(4) have "map_of fs (''attachments/'' @ att_name a) = None"
        by simp
      ultimately show "map_of (fs @ [?e]) (''attachments/'' @ att_name a) = None"
        by (simp add: map_of_append_None)
    qed
  qed
  with step show ?case by (simp add: zip_file_def attachment_entry_def)
qed

lemma map_of_image_entries_other:
  "\<forall>i \<in> set images. k \<noteq> ''images/'' @ img_name i \<Longrightarrow> map_of (map image_entry images) k = None"
  by (induction images) (auto simp: image_entry_def)

lemma folderAdd_images_start:
  "folderAdd ''images'' (fileAdd ''README.md'' d []) =
     [(''README.md'', \<lparr>entry_dir = False, entry_data = d\<rparr>),
      (''images/'', \<lparr>entry_dir = True, entry_data = []\<rparr>)]"
proof -
  have p1: "parentFolder ''README.md'' = []" by code_simp
  have p2: "parentFolder ''images/'' = []" by code_simp
  have f: "forceTrailingSlash ''images'' = ''images/''" by code_simp
  have a: "fileAdd ''README.md'' d [] = [(''README.md'', \<lparr>entry_dir = False, entry_data = d\<rparr>)]"
    by (simp add: fileAdd_def p1)
  show ?thesis
    unfolding a by (subst folderAdd.simps) (simp add: f p2)
qed

lemma folderAdd_attachments_fresh:
  assumes "map_of fs ''attachments/'' = None"
  shows "folderAdd ''attachments'' fs = fs @ [(''attachments/'', \<lparr>entry_dir = True, entry_data = []\<rparr>)]"
proof -
  have p: "parentFolder ''attachments/'' = []" by code_simp
  have f: "forceTrailingSlash ''attachments'' = ''attachments/''" by code_simp
  show ?thesis
    using assms by (subst folderAdd.simps) (simp add: f p files_put_fresh)
qed

lemma createZipFile_unique_names:
  assumes "distinct (map img_name images)" and "distinct (map att_name attachments)"
    and "\<forall>i \<in> set images. img_name i \<noteq> [] \<and> CHR ''/'' \<notin> set (img_name i)"
    and "\<forall>a \<in> set attachments. att_name a \<noteq> [] \<and> CHR ''/'' \<notin> set (att_name a)"
  shows "createZipFile markdown images attachments =
           [(''README.md'', \<lparr>entry_dir = False, entry_data = utf8encode markdown\<rparr>),
            (''images/'', \<lparr>entry_dir = True, entry_data = []\<rparr>)] @
           map image_entry images @
           [(''attachments/'', \<lparr>entry_dir = True, entry_data = []\<rparr>)] @
           map attachment_entry attachments"
proof -
  let ?z2 = "[(''README.md'', \<lparr>entry_dir = False, entry_data = utf8encode markdown\<rparr>),
              (''images/'', \<lparr>entry_dir = True, entry_data = []\<rparr>)]"
  let ?z3 = "?z2 @ map image_entry images"
  let ?z4 = "?z3 @ [(''attachments/'', \<lparr>entry_dir = True, entry_data = []\<rparr>)]"
  have z3: "add_images ''images/'' images ?z2 = ?z3"
    by (rule add_images_fresh) (use assms(1,3) in auto)
  have "map_of (map image_entry images) ''attachments/'' = None"
    by (rule map_of_image_entries_other) simp
  then have "map_of ?z3 ''attachments/'' = None"
    by (simp add: map_of_append_None)
  then have z4: "folderAdd ''attachments'' ?z3 = ?z4"
    by (rule folderAdd_attachments_fresh)
  have none: "\<forall>a \<in> set attachments. map_of ?z4 (''attachments/'' @ att_name a) = None"
  proof
    fix a assume "a \<in> set attachments"
    with assms(4) have ne: "att_name a \<noteq> []" by simp
    have "map_of (map image_entry images) (''attachments/'' @ att_name a) = None"
      by (rule map_of_image_entries_other) simp
    with ne show "map_of ?z4 (''attachments/'' @ att_name a) = None"
      by (simp add: map_of_append_None)
  qed
  have z5: "add_attachments ''attachments/'' attachments ?z4 = ?z4 @ map attachment_entry attachments"
    by (rule add_attachments_fresh) (use assms(2,4) none in \<open>simp_all add: map_of_append_None\<close>)
  show ?thesis
    unfolding createZipFile_unfold folderAdd_images_start z3 z4 z5 by simp
qed


text \<open>Reading this archive gives the table that was written.\<close>

lemma resolve_child:
  assumes "CHR ''/'' \<notin> set r" and "r \<noteq> ''.''" and "r \<noteq> ''..''"
    and "CHR ''/'' \<notin> set n" and "n \<noteq> ''.''" and "n \<noteq> ''..''"
  shows "resolve (r @ CHR ''/'' # n) = r @ CHR ''/'' # n"
  using assms by (simp add: resolve_def split_append_sep split_no_sep Let_def)

lemma loadAsync_loop_stable:
  assumes "\<forall>e \<in> set es.
             resolve (fst e) = fst e \<and>
             (entry_dir (snd e) \<longleftrightarrow> fst e \<noteq> [] \<and> last (fst e) = CHR ''/'') \<and>
             (entry_dir (snd e) \<longrightarrow> entry_data (snd e) = [])"
    and "distinct (map fst (acc @ es))"
  shows "loadAsync_loop es acc = acc @ es"
  using assms
proof (induction es arbitrary: acc)
  case Nil
  then show ?case by simp
next
  case (Cons e es)
  obtain k obj where e: "e = (k, obj)" by (cases e)
  from Cons.prems(1) e have st: "resolve k = k"
    "entry_dir obj \<longleftrightarrow> k \<noteq> [] \<and> last k = CHR ''/''"
    "entry_dir obj \<longrightarrow> entry_data obj = []"
    by auto
  have nm: "(if entry_dir obj then forceTrailingSlash k else k) = k"
    using st(2) by (auto simp: forceTrailingSlash_def)
  have ob: "\<lparr>entry_dir = entry_dir obj, entry_data = (if entry_dir obj then [] else entry_data obj)\<rparr> = obj"
    using st(3) by (cases "entry_dir obj") simp_all
  from Cons.prems(2) e have "k \<notin> fst ` set acc" by auto
  then have "map_of acc k = None" by (simp add: map_of_eq_None_iff)
  then have put: "files_put k obj acc = acc @ [(k, obj)]" by (rule files_put_fresh)
  have step: "loadAsync_loop (e # es) acc = loadAsync_loop es (acc @ [(k, obj)])"
    unfolding e using st(2) nm ob put by (simp add: st(1) Let_def)
  have "loadAsync_loop es (acc @ [(k, obj)]) = (acc @ [(k, obj)]) @ es"
  proof (rule Cons.IH)
    show "\<forall>e \<in> set es.
             resolve (fst e) = fst e \<and>
             (entry_dir (snd e) \<longleftrightarrow> fst e \<noteq> [] \<and> last (fst e) = CHR ''/'') \<and>
             (entry_dir (snd e) \<longrightarrow> entry_data (snd e) = [])"
      using Cons.prems(1) by simp
    show "distinct (map fst ((acc @ [(k, obj)]) @ es))"
      using Cons.prems(2) e by simp
  qed
  with step e show ?case by simp
qed


lemma image_extension_not_dots:
  "\<not> image_extension ''.''" "\<not> image_extension ''..''"
  unfolding test_image_ext_iff [symmetric] by code_simp+

lemma resolve_examples:
  "resolve ''README.md'' = ''README.md''" "resolve ''images/'' = ''images/''"
  "resolve ''attachments/'' = ''attachments/''"
  by code_simp+

lemma loadAsync_generateAsync_createZipFile:
  assumes "distinct (map img_name images)" and "distinct (map att_name attachments)"
    and "\<forall>i \<in> set images.
           img_name i \<noteq> [] \<and> CHR ''/'' \<notin> set (img_name i) \<and>
           img_name i \<noteq> ''.'' \<and> img_name i \<noteq> ''..''"
    and "\<forall>a \<in> set attachments.
           att_name a \<noteq> [] \<and> CHR ''/'' \<notin> set (att_name a) \<and>
           att_name a \<noteq> ''.'' \<and> att_name a \<noteq> ''..''"
  shows "loadAsync (generateAsync (createZipFile markdown images attachments)) =
           createZipFile markdown images attachments"
proof -
  let ?z = "createZipFile markdown images attachments"
  have i3: "\<forall>i \<in> set images. img_name i \<noteq> [] \<and> CHR ''/'' \<notin> set (img_name i)"
    using assms(3) by blast
  have a3: "\<forall>a \<in> set attachments. att_name a \<noteq> [] \<and> CHR ''/'' \<notin> set (att_name a)"
    using assms(4) by blast
  note z = createZipFile_unique_names [OF assms(1,2) i3 a3, of markdown]
  have img: "resolve (fst (image_entry i)) = fst (image_entry i) \<and>
             \<not> entry_dir (snd (image_entry i)) \<and> fst (image_entry i) \<noteq> [] \<and>
             last (fst (image_entry i)) \<noteq> CHR ''/''"
    if "i \<in> set images" for i
  proof -
    from that assms(3) have n: "img_name i \<noteq> []" "CHR ''/'' \<notin> set (img_name i)"
      "img_name i \<noteq> ''.''" "img_name i \<noteq> ''..''"
      by auto
    have "resolve (''images'' @ CHR ''/'' # img_name i) = ''images'' @ CHR ''/'' # img_name i"
      by (rule resolve_child) (use n in simp_all)
    moreover have "last (img_name i) \<noteq> CHR ''/''"
      using n(1,2) last_in_set by metis
    ultimately show ?thesis using n(1) by (simp add: image_entry_def)
  qed
  have att: "resolve (fst (attachment_entry a)) = fst (attachment_entry a) \<and>
             \<not> entry_dir (snd (attachment_entry a)) \<and> fst (attachment_entry a) \<noteq> [] \<and>
             last (fst (attachment_entry a)) \<noteq> CHR ''/''"
    if "a \<in> set attachments" for a
  proof -
    from that assms(4) have n: "att_name a \<noteq> []" "CHR ''/'' \<notin> set (att_name a)"
      "att_name a \<noteq> ''.''" "att_name a \<noteq> ''..''"
      by auto
    have "resolve (''attachments'' @ CHR ''/'' # att_name a) =
            ''attachments'' @ CHR ''/'' # att_name a"
      by (rule resolve_child) (use n in simp_all)
    moreover have "last (att_name a) \<noteq> CHR ''/''"
      using n(1,2) last_in_set by metis
    ultimately show ?thesis using n(1) by (simp add: attachment_entry_def)
  qed
  have st: "\<forall>e \<in> set ?z.
              resolve (fst e) = fst e \<and>
              (entry_dir (snd e) \<longleftrightarrow> fst e \<noteq> [] \<and> last (fst e) = CHR ''/'') \<and>
              (entry_dir (snd e) \<longrightarrow> entry_data (snd e) = [])"
    unfolding z using img att by (simp add: resolve_examples ball_Un)
  have "\<forall>e \<in> set ?z. fst e \<noteq> []"
    unfolding z using img att by (simp add: ball_Un)
  then have g: "generateAsync ?z = ?z"
    by (simp add: generateAsync_def filter_id_conv split_def)
  have "loadAsync_loop ?z [] = [] @ ?z"
    by (rule loadAsync_loop_stable [OF st]) (simp add: distinct_createZipFile)
  with g show ?thesis by (simp add: loadAsync_def)
qed

lemma utf8decode_utf8encode: "utf8decode (utf8encode s) = s"
proof -
  have "char_of (unat (of_nat (of_char c :: nat) :: 8 word)) = c" for c :: char
    by (simp add: unat_of_nat)
  then show ?thesis by (simp add: utf8decode_def utf8encode_def o_def)
qed

lemma image_extension_nonempty: "image_extension n \<Longrightarrow> n \<noteq> []"
  by (auto simp: image_extension_def)

lemma final_segment_images [simp]:
  "CHR ''/'' \<notin> set n \<Longrightarrow>
     final_segment (CHR ''i'' # CHR ''m'' # CHR ''a'' # CHR ''g'' # CHR ''e'' # CHR ''s'' # CHR ''/'' # n) = n"
  using final_segment_append [of n "''images''"] by simp

lemma final_segment_attachments [simp]:
  "CHR ''/'' \<notin> set n \<Longrightarrow>
     final_segment (CHR ''a'' # CHR ''t'' # CHR ''t'' # CHR ''a'' # CHR ''c'' # CHR ''h'' # CHR ''m'' #
       CHR ''e'' # CHR ''n'' # CHR ''t'' # CHR ''s'' # CHR ''/'' # n) = n"
  using final_segment_append [of n "''attachments''"] by simp

lemma decode_image_entries:
  assumes "\<forall>i \<in> set images. image_extension (img_name i) \<and> CHR ''/'' \<notin> set (img_name i)"
  shows "filter is_image_entry (map image_entry images) = map image_entry images"
    and "filter is_attachment_entry (map image_entry images) = []"
  using assms
  by (induction images)
     (simp_all add: image_entry_def is_image_entry_def is_attachment_entry_def)

lemma decode_attachment_entries:
  assumes "\<forall>a \<in> set attachments. \<not> image_extension (att_name a) \<and> CHR ''/'' \<notin> set (att_name a)"
  shows "filter is_image_entry (map attachment_entry attachments) = []"
    and "filter is_attachment_entry (map attachment_entry attachments) =
           map attachment_entry attachments"
  using assms
  by (induction attachments)
     (simp_all add: attachment_entry_def is_image_entry_def is_attachment_entry_def)

lemma enumerate_map_image_entry:
  "CHR ''/'' \<notin> set (img_name i) \<Longrightarrow>
     image_of_entry uuid (k, image_entry i) =
       \<lparr>img_id = uuid k, img_name = img_name i, img_url = img_url i,
         img_file = \<lparr>file_name = img_name i, file_bytes = img_url i\<rparr>,
         img_size = length (img_url i)\<rparr>"
  by (simp add: image_of_entry_def image_entry_def)

lemma decoded_images_proj:
  assumes "\<forall>i \<in> set images. CHR ''/'' \<notin> set (img_name i)"
  shows "map (\<lambda>i. (img_name i, img_url i, file_bytes (img_file i), img_size i))
           (map (image_of_entry uuid) (enumerate k (map image_entry images))) =
         map (\<lambda>i. (img_name i, img_url i, img_url i, length (img_url i))) images"
  using assms
  by (induction images arbitrary: k) (simp_all add: enumerate_map_image_entry)

lemma decoded_attachments_proj:
  assumes "\<forall>a \<in> set attachments. CHR ''/'' \<notin> set (att_name a)"
  shows "map (\<lambda>a. (att_name a, file_bytes (att_file a), att_size a))
           (map attachment_of_entry (map attachment_entry attachments)) =
         map (\<lambda>a. (att_name a, file_bytes (att_file a), length (file_bytes (att_file a))))
           attachments"
  using assms
  by (induction attachments)
     (simp_all add: attachment_of_entry_def attachment_entry_def)

lemma roundtrip_lists:
  assumes "distinct (map img_name images)" and "distinct (map att_name attachments)"
    and "\<forall>i \<in> set images. image_extension (img_name i) \<and> CHR ''/'' \<notin> set (img_name i)"
    and "\<forall>a \<in> set attachments.
           \<not> image_extension (att_name a) \<and> CHR ''/'' \<notin> set (att_name a) \<and> att_name a \<noteq> []"
  shows "zc_readme (readZipFile uuid (createZipFile markdown images attachments)) = markdown"
    and "map (\<lambda>i. (img_name i, img_url i, file_bytes (img_file i), img_size i))
           (zc_images (readZipFile uuid (createZipFile markdown images attachments))) =
         map (\<lambda>i. (img_name i, img_url i, img_url i, length (img_url i))) images"
    and "map (\<lambda>a. (att_name a, file_bytes (att_file a), att_size a))
           (zc_attachments (readZipFile uuid (createZipFile markdown images attachments))) =
         map (\<lambda>a. (att_name a, file_bytes (att_file a), length (file_bytes (att_file a))))
           attachments"
proof -
  have i3: "\<forall>i \<in> set images. img_name i \<noteq> [] \<and> CHR ''/'' \<notin> set (img_name i)"
    using assms(3) image_extension_nonempty by blast
  have a3: "\<forall>a \<in> set attachments. att_name a \<noteq> [] \<and> CHR ''/'' \<notin> set (att_name a)"
    using assms(4) by blast
  have a4: "\<forall>a \<in> set attachments. \<not> image_extension (att_name a) \<and> CHR ''/'' \<notin> set (att_name a)"
    using assms(4) by blast
  have i4: "\<forall>i \<in> set images. CHR ''/'' \<notin> set (img_name i)"
    using assms(3) by blast
  have a5: "\<forall>a \<in> set attachments. CHR ''/'' \<notin> set (att_name a)"
    using assms(4) by blast
  note z = createZipFile_unique_names [OF assms(1,2) i3 a3, of markdown]
  have r: "\<not> is_image_entry (''README.md'', e)" "\<not> is_attachment_entry (''README.md'', e)" for e
    using README_not_image by (simp_all add: is_image_entry_def is_attachment_entry_def)
  have d: "\<not> is_image_entry (p, \<lparr>entry_dir = True, entry_data = []\<rparr>)"
     "\<not> is_attachment_entry (p, \<lparr>entry_dir = True, entry_data = []\<rparr>)" for p
    by (simp_all add: is_image_entry_def is_attachment_entry_def)
  have fi: "filter is_image_entry (createZipFile markdown images attachments) =
              map image_entry images"
    unfolding z
    by (simp add: r d decode_image_entries [OF assms(3)] decode_attachment_entries [OF a4]
          del: filter_map map_map)
  have fa: "filter is_attachment_entry (createZipFile markdown images attachments) =
              map attachment_entry attachments"
    unfolding z
    by (simp add: r d decode_image_entries [OF assms(3)] decode_attachment_entries [OF a4]
          del: filter_map map_map)
  show "zc_readme (readZipFile uuid (createZipFile markdown images attachments)) = markdown"
    unfolding z by (simp add: readZipFile_eq utf8decode_utf8encode)
  show "map (\<lambda>i. (img_name i, img_url i, file_bytes (img_file i), img_size i))
           (zc_images (readZipFile uuid (createZipFile markdown images attachments))) =
         map (\<lambda>i. (img_name i, img_url i, img_url i, length (img_url i))) images"
    unfolding readZipFile_eq fi using decoded_images_proj [OF i4, of uuid 0]
    by (simp del: map_map)
  show "map (\<lambda>a. (att_name a, file_bytes (att_file a), att_size a))
           (zc_attachments (readZipFile uuid (createZipFile markdown images attachments))) =
         map (\<lambda>a. (att_name a, file_bytes (att_file a), length (file_bytes (att_file a))))
           attachments"
    unfolding readZipFile_eq fa using decoded_attachments_proj [OF a5]
    by (simp del: map_map)
qed


text \<open>
  Claim C1, amended. Take a bundle whose display names are unique within each
  namespace and hold no slash, whose image names have an image extension and whose
  attachment names have none and are not empty, not \<^verbatim>\<open>.\<close> and not \<^verbatim>\<open>..\<close>. Decoding the
  archive that encoding it writes gives the same readme text, the same pairs of name
  and content among the images and the same among the attachments; each decoded image
  has the written bytes as its file as well.
\<close>

theorem roundtrip_unique_names:
  assumes "distinct (map img_name images)" and "distinct (map att_name attachments)"
    and "\<forall>i \<in> set images. image_extension (img_name i) \<and> CHR ''/'' \<notin> set (img_name i)"
    and "\<forall>a \<in> set attachments.
           \<not> image_extension (att_name a) \<and> CHR ''/'' \<notin> set (att_name a) \<and>
           att_name a \<noteq> [] \<and> att_name a \<noteq> ''.'' \<and> att_name a \<noteq> ''..''"
  shows "zc_readme (readZipFile_archive uuid (createZipFile_archive markdown images attachments)) =
           markdown \<and>
         image_pairs (zc_images (readZipFile_archive uuid
             (createZipFile_archive markdown images attachments))) = image_pairs images \<and>
         attachment_pairs (zc_attachments (readZipFile_archive uuid
             (createZipFile_archive markdown images attachments))) = attachment_pairs attachments \<and>
         list_all (\<lambda>i. file_bytes (img_file i) = img_url i)
           (zc_images (readZipFile_archive uuid (createZipFile_archive markdown images attachments)))"
proof -
  let ?r = "readZipFile uuid (createZipFile markdown images attachments)"
  have i5: "\<forall>i \<in> set images.
              img_name i \<noteq> [] \<and> CHR ''/'' \<notin> set (img_name i) \<and>
              img_name i \<noteq> ''.'' \<and> img_name i \<noteq> ''..''"
    using assms(3) image_extension_nonempty image_extension_not_dots by metis
  have a5: "\<forall>a \<in> set attachments.
              att_name a \<noteq> [] \<and> CHR ''/'' \<notin> set (att_name a) \<and>
              att_name a \<noteq> ''.'' \<and> att_name a \<noteq> ''..''"
    using assms(4) by blast
  have a4: "\<forall>a \<in> set attachments.
              \<not> image_extension (att_name a) \<and> CHR ''/'' \<notin> set (att_name a) \<and> att_name a \<noteq> []"
    using assms(4) by blast
  have eq: "readZipFile_archive uuid (createZipFile_archive markdown images attachments) = ?r"
    unfolding readZipFile_archive_def createZipFile_archive_def
    by (simp only: loadAsync_generateAsync_createZipFile [OF assms(1,2) i5 a5])
  note l = roundtrip_lists [OF assms(1,2,3) a4, of uuid markdown]
  have "map (\<lambda>i. (img_name i, img_url i)) (zc_images ?r) =
          map (\<lambda>q. (fst q, fst (snd q)))
            (map (\<lambda>i. (img_name i, img_url i, file_bytes (img_file i), img_size i)) (zc_images ?r))"
    by (simp add: o_def)
  also have "\<dots> = map (\<lambda>i. (img_name i, img_url i)) images"
    unfolding l(2) by (simp add: o_def)
  finally have i: "image_pairs (zc_images ?r) = image_pairs images"
    by (simp only: image_pairs_def)
  have "map (\<lambda>a. (att_name a, file_bytes (att_file a))) (zc_attachments ?r) =
          map (\<lambda>q. (fst q, fst (snd q)))
            (map (\<lambda>a. (att_name a, file_bytes (att_file a), att_size a)) (zc_attachments ?r))"
    by (simp add: o_def)
  also have "\<dots> = map (\<lambda>a. (att_name a, file_bytes (att_file a))) attachments"
    unfolding l(3) by (simp add: o_def)
  finally have a: "attachment_pairs (zc_attachments ?r) = attachment_pairs attachments"
    by (simp only: attachment_pairs_def)
  have "map (\<lambda>i. file_bytes (img_file i) = img_url i) (zc_images ?r) =
          map (\<lambda>q. fst (snd (snd q)) = fst (snd q))
            (map (\<lambda>i. (img_name i, img_url i, file_bytes (img_file i), img_size i)) (zc_images ?r))"
    by (simp add: o_def)
  also have "\<dots> = map (\<lambda>i. True) images"
    unfolding l(2) by (simp add: o_def)
  finally have "\<forall>b \<in> set (map (\<lambda>i. file_bytes (img_file i) = img_url i) (zc_images ?r)). b"
    by simp
  then have f: "list_all (\<lambda>i. file_bytes (img_file i) = img_url i) (zc_images ?r)"
    by (simp add: list_all_iff)
  from l(1) i a f show ?thesis unfolding eq by simp
qed

lemma image_extension_examples:
  "image_extension ''cat.png''" "image_extension ''dog.png''"
  "\<not> image_extension ''notes.txt''" "\<not> image_extension ''data.csv''"
  unfolding test_image_ext_iff [symmetric] by code_simp+

theorem roundtrip_unique_names_witness:
  "distinct (map img_name [cat_png, dog_png]) \<and>
   distinct (map att_name [notes_txt, data_csv]) \<and>
   zc_readme (readZipFile_archive example_uuid
       (createZipFile_archive ''# hi'' [cat_png, dog_png] [notes_txt, data_csv])) = ''# hi'' \<and>
   image_pairs (zc_images (readZipFile_archive example_uuid
       (createZipFile_archive ''# hi'' [cat_png, dog_png] [notes_txt, data_csv]))) =
     {(''cat.png'', [1, 2, 3]), (''dog.png'', [4, 5])} \<and>
   attachment_pairs (zc_attachments (readZipFile_archive example_uuid
       (createZipFile_archive ''# hi'' [cat_png, dog_png] [notes_txt, data_csv]))) =
     {(''notes.txt'', [1, 2, 3, 4, 5]), (''data.csv'', [9])}"
proof -
  have n: "img_name cat_png = ''cat.png''" "img_name dog_png = ''dog.png''"
    "att_name notes_txt = ''notes.txt''" "att_name data_csv = ''data.csv''"
    by (simp_all add: cat_png_def dog_png_def notes_txt_def data_csv_def)
  have h1: "distinct (map img_name [cat_png, dog_png])" by (simp add: n)
  have h2: "distinct (map att_name [notes_txt, data_csv])" by (simp add: n)
  have h3: "\<forall>i \<in> set [cat_png, dog_png].
              image_extension (img_name i) \<and> CHR ''/'' \<notin> set (img_name i)"
    by (simp add: n image_extension_examples)
  have h4: "\<forall>a \<in> set [notes_txt, data_csv].
              \<not> image_extension (att_name a) \<and> CHR ''/'' \<notin> set (att_name a) \<and>
              att_name a \<noteq> [] \<and> att_name a \<noteq> ''.'' \<and> att_name a \<noteq> ''..''"
    by (simp add: n image_extension_examples)
  have p: "image_pairs [cat_png, dog_png] = {(''cat.png'', [1, 2, 3]), (''dog.png'', [4, 5])}"
    "attachment_pairs [notes_txt, data_csv] = {(''notes.txt'', [1, 2, 3, 4, 5]), (''data.csv'', [9])}"
    by (simp_all add: image_pairs_def attachment_pairs_def cat_png_def dog_png_def notes_txt_def
          data_csv_def)
  from roundtrip_unique_names [OF h1 h2 h3 h4, of example_uuid "''# hi''"] h1 h2
  show ?thesis by (simp only: p)
qed

section \<open>Resolving references\<close>

lemma find_Some_split:
  "find P xs = Some x \<longleftrightarrow> (\<exists>pre post. xs = pre @ x # post \<and> P x \<and> (\<forall>y \<in> set pre. \<not> P y))"
proof (induction xs)
  case Nil
  then show ?case by simp
next
  case (Cons a xs)
  show ?case
  proof (cases "P a")
    case True
    have "(\<exists>pre post. a # xs = pre @ x # post \<and> P x \<and> (\<forall>y \<in> set pre. \<not> P y)) \<longleftrightarrow> a = x"
    proof
      assume "\<exists>pre post. a # xs = pre @ x # post \<and> P x \<and> (\<forall>y \<in> set pre. \<not> P y)"
      then obtain pre post where e: "a # xs = pre @ x # post" "\<forall>y \<in> set pre. \<not> P y" by blast
      with True show "a = x" by (cases pre) auto
    next
      assume "a = x"
      with True have "a # xs = [] @ x # xs \<and> P x \<and> (\<forall>y \<in> set []. \<not> P y)" by simp
      then show "\<exists>pre post. a # xs = pre @ x # post \<and> P x \<and> (\<forall>y \<in> set pre. \<not> P y)" by blast
    qed
    with True show ?thesis by simp
  next
    case False
    have "(\<exists>pre post. a # xs = pre @ x # post \<and> P x \<and> (\<forall>y \<in> set pre. \<not> P y)) \<longleftrightarrow>
          (\<exists>pre post. xs = pre @ x # post \<and> P x \<and> (\<forall>y \<in> set pre. \<not> P y))"
    proof
      assume "\<exists>pre post. a # xs = pre @ x # post \<and> P x \<and> (\<forall>y \<in> set pre. \<not> P y)"
      then obtain pre post where e: "a # xs = pre @ x # post" "P x" "\<forall>y \<in> set pre. \<not> P y"
        by blast
      with False obtain pre' where "pre = a # pre'" by (cases pre) auto
      with e have "xs = pre' @ x # post \<and> P x \<and> (\<forall>y \<in> set pre'. \<not> P y)" by simp
      then show "\<exists>pre post. xs = pre @ x # post \<and> P x \<and> (\<forall>y \<in> set pre. \<not> P y)" by blast
    next
      assume "\<exists>pre post. xs = pre @ x # post \<and> P x \<and> (\<forall>y \<in> set pre. \<not> P y)"
      then obtain pre post where e: "xs = pre @ x # post" "P x" "\<forall>y \<in> set pre. \<not> P y"
        by blast
      with False have "a # xs = (a # pre) @ x # post \<and> P x \<and> (\<forall>y \<in> set (a # pre). \<not> P y)"
        by simp
      then show "\<exists>pre post. a # xs = pre @ x # post \<and> P x \<and> (\<forall>y \<in> set pre. \<not> P y)" by blast
    qed
    with False Cons show ?thesis by simp
  qed
qed

lemma find_None_all: "find P xs = None \<longleftrightarrow> (\<forall>y \<in> set xs. \<not> P y)"
  by (auto simp: find_None_iff)

lemma components_img_decoded:
  assumes "decodeURIComponent (replace_bang_backslash s) = Inr d"
  shows "components_img (Some s) images =
           Inr (case find (\<lambda>img. accepted (cleaned d) (img_name img)) images of
                  Some image' \<Rightarrow> ImgElement image'
                | None \<Rightarrow> ImgNotFound d)"
  using assms
  by (simp add: components_img_def accepted_def cleaned_def endsWith_suffix Let_def)

text \<open>
  Claim C6, amended. Let the source, with every \<^verbatim>\<open>!\<close> and backslash removed, decode
  to \<open>d\<close>. The component returns the image \<open>i\<close> exactly when \<open>i\<close> is the first image of
  the array whose name the cleaned target accepts: the cleaned target is
  \<^verbatim>\<open>images/<name>\<close>, is the name, ends with \<^verbatim>\<open>images/<name>\<close>, ends with the name, or
  is the cleaned name. When no name is accepted the result is the not-found box, which
  carries \<open>d\<close> itself, the decoded source before the punctuation is removed and
  before trimming. These are the only results, and nothing is raised.
\<close>

theorem components_img_first_match:
  assumes "decodeURIComponent (replace_bang_backslash s) = Inr d"
  shows "(components_img (Some s) images = Inr (ImgElement i) \<longleftrightarrow>
            (\<exists>pre post. images = pre @ i # post \<and> accepted (cleaned d) (img_name i) \<and>
               (\<forall>x \<in> set pre. \<not> accepted (cleaned d) (img_name x)))) \<and>
         (components_img (Some s) images = Inr (ImgNotFound d) \<longleftrightarrow>
            (\<forall>x \<in> set images. \<not> accepted (cleaned d) (img_name x))) \<and>
         (\<forall>r. components_img (Some s) images = Inr r \<longrightarrow>
            (\<exists>i. r = ImgElement i) \<or> r = ImgNotFound d) \<and>
         components_img (Some s) images \<noteq> Inl URIError"
proof -
  let ?P = "\<lambda>img. accepted (cleaned d) (img_name img)"
  note c = components_img_decoded [OF assms, of images]
  have 1: "components_img (Some s) images = Inr (ImgElement i) \<longleftrightarrow> find ?P images = Some i"
    unfolding c by (auto split: option.splits)
  have 2: "components_img (Some s) images = Inr (ImgNotFound d) \<longleftrightarrow> find ?P images = None"
    unfolding c by (auto split: option.splits)
  have 3: "\<forall>r. components_img (Some s) images = Inr r \<longrightarrow>
            (\<exists>i. r = ImgElement i) \<or> r = ImgNotFound d"
    unfolding c by (auto split: option.splits)
  have 4: "components_img (Some s) images \<noteq> Inl URIError"
    unfolding c by simp
  show ?thesis
    unfolding 1 2 using 3 4 by (simp add: find_Some_split [of ?P] find_None_all [of ?P])
qed

lemma components_a_decoded:
  assumes "decodeURIComponent h = Inr d"
  shows "components_a (Some h) attachments =
           Inr (case find (\<lambda>attach. suffix (''attachments/'' @ att_name attach) d) attachments of
                  Some attachment \<Rightarrow> DownloadButton attachment
                | None \<Rightarrow> PlainLink (Some h))"
proof -
  have "(d = p \<or> endsWith d p) = suffix p d" for p
    by (auto simp: endsWith_suffix)
  with assms show ?thesis
    by (simp add: components_a_def Let_def)
qed

text \<open>
  Claim C5, amended. The component \<^verbatim>\<open>a\<close> decodes the href and cleans nothing else. It
  returns the download button of the attachment \<open>a\<close> exactly when \<open>a\<close> is the first
  attachment of the array for which the decoded href is, or ends with,
  \<^verbatim>\<open>attachments/<name>\<close>; when there is none it returns an ordinary link.
\<close>

theorem components_a_first_match:
  assumes "decodeURIComponent h = Inr d"
  shows "(components_a (Some h) attachments = Inr (DownloadButton a) \<longleftrightarrow>
            (\<exists>pre post. attachments = pre @ a # post \<and> suffix (''attachments/'' @ att_name a) d \<and>
               (\<forall>x \<in> set pre. \<not> suffix (''attachments/'' @ att_name x) d))) \<and>
         (components_a (Some h) attachments = Inr (PlainLink (Some h)) \<longleftrightarrow>
            (\<forall>x \<in> set attachments. \<not> suffix (''attachments/'' @ att_name x) d))"
proof -
  let ?P = "\<lambda>attach. suffix (''attachments/'' @ att_name attach) d"
  note c = components_a_decoded [OF assms, of attachments]
  have 1: "components_a (Some h) attachments = Inr (DownloadButton a) \<longleftrightarrow> find ?P attachments = Some a"
    unfolding c by (auto split: option.splits)
  have 2: "components_a (Some h) attachments = Inr (PlainLink (Some h)) \<longleftrightarrow> find ?P attachments = None"
    unfolding c by (auto split: option.splits)
  show ?thesis
    unfolding 1 2 find_Some_split [of ?P] find_None_all [of ?P] by (intro conjI refl)
qed

text \<open>
  Claim C5, as stated: the component \<^verbatim>\<open>a\<close> cleans and matches as the component
  \<^verbatim>\<open>img\<close> does. It does not: a bare name, a target with a trailing space and a target
  in parentheses resolve for an image and do not resolve for an attachment.
\<close>

theorem components_differ:
  "components_img (Some ''cat.png'') [cat_png] = Inr (ImgElement cat_png) \<and>
   components_a (Some ''notes.txt'') [notes_txt] = Inr (PlainLink (Some ''notes.txt'')) \<and>
   components_img (Some ''images/cat.png%20'') [cat_png] = Inr (ImgElement cat_png) \<and>
   components_a (Some ''attachments/notes.txt%20'') [notes_txt] =
     Inr (PlainLink (Some ''attachments/notes.txt%20'')) \<and>
   components_img (Some ''(images/cat.png)'') [cat_png] = Inr (ImgElement cat_png) \<and>
   components_a (Some ''(attachments/notes.txt)'') [notes_txt] =
     Inr (PlainLink (Some ''(attachments/notes.txt)''))"
  by code_simp

text \<open>
  Claim C6, as stated: resolution never throws, and a miss carries the cleaned target.
  The source \<^verbatim>\<open>images/%FF.png\<close> raises URIError; and the miss for
  \<^verbatim>\<open>images/dog.png%20\<close> carries the decoded source with its trailing space, not the
  cleaned target.
\<close>

theorem components_img_throws_and_shows_decoded:
  "components_img (Some ''images/%FF.png'') [cat_png] = Inl URIError \<and>
   components_img (Some ''images/dog.png%20'') [cat_png] = Inr (ImgNotFound ''images/dog.png '') \<and>
   cleaned ''images/dog.png '' = ''images/dog.png''"
  by code_simp

lemma decode_examples:
  "decodeURIComponent (replace_bang_backslash ''./images/my%20photo.png'') = Inr ''./images/my photo.png''"
  "decodeURIComponent ''docs/attachments/notes.txt'' = Inr ''docs/attachments/notes.txt''"
  by code_simp+


theorem components_img_first_match_witness:
  "decodeURIComponent (replace_bang_backslash ''./images/my%20photo.png'') =
     Inr ''./images/my photo.png'' \<and>
   components_img (Some ''./images/my%20photo.png'') [dog_png, my_photo] = Inr (ImgElement my_photo) \<and>
   components_img (Some ''./images/my%20photo.png'') [dog_png] = Inr (ImgNotFound ''./images/my photo.png'')"
proof -
  have a1: "accepted (cleaned ''./images/my photo.png'') (img_name my_photo)"
    by code_simp
  have a2: "\<not> accepted (cleaned ''./images/my photo.png'') (img_name dog_png)"
    by code_simp
  have "[dog_png, my_photo] = [dog_png] @ my_photo # [] \<and>
        accepted (cleaned ''./images/my photo.png'') (img_name my_photo) \<and>
        (\<forall>x \<in> set [dog_png]. \<not> accepted (cleaned ''./images/my photo.png'') (img_name x))"
    using a1 a2 by simp
  then have e: "\<exists>pre post. [dog_png, my_photo] = pre @ my_photo # post \<and>
        accepted (cleaned ''./images/my photo.png'') (img_name my_photo) \<and>
        (\<forall>x \<in> set pre. \<not> accepted (cleaned ''./images/my photo.png'') (img_name x))"
    by blast
  have n: "\<forall>x \<in> set [dog_png]. \<not> accepted (cleaned ''./images/my photo.png'') (img_name x)"
    using a2 by simp
  from components_img_first_match [OF decode_examples(1), of "[dog_png, my_photo]" my_photo] e
    components_img_first_match [OF decode_examples(1), of "[dog_png]" my_photo] n
    decode_examples(1)
  show ?thesis by blast
qed

theorem components_a_first_match_witness:
  "decodeURIComponent ''docs/attachments/notes.txt'' = Inr ''docs/attachments/notes.txt'' \<and>
   components_a (Some ''docs/attachments/notes.txt'') [data_csv, notes_txt] =
     Inr (DownloadButton notes_txt) \<and>
   components_a (Some ''docs/attachments/notes.txt'') [data_csv] =
     Inr (PlainLink (Some ''docs/attachments/notes.txt''))"
proof -
  have a1: "suffix (''attachments/'' @ att_name notes_txt) ''docs/attachments/notes.txt''"
    by code_simp
  have a2: "\<not> suffix (''attachments/'' @ att_name data_csv) ''docs/attachments/notes.txt''"
    by code_simp
  have "[data_csv, notes_txt] = [data_csv] @ notes_txt # [] \<and>
        suffix (''attachments/'' @ att_name notes_txt) ''docs/attachments/notes.txt'' \<and>
        (\<forall>x \<in> set [data_csv]. \<not> suffix (''attachments/'' @ att_name x) ''docs/attachments/notes.txt'')"
    using a1 a2 by simp
  then have e: "\<exists>pre post. [data_csv, notes_txt] = pre @ notes_txt # post \<and>
        suffix (''attachments/'' @ att_name notes_txt) ''docs/attachments/notes.txt'' \<and>
        (\<forall>x \<in> set pre. \<not> suffix (''attachments/'' @ att_name x) ''docs/attachments/notes.txt'')"
    by blast
  have n: "\<forall>x \<in> set [data_csv]. \<not> suffix (''attachments/'' @ att_name x) ''docs/attachments/notes.txt''"
    using a2 by simp
  from components_a_first_match [OF decode_examples(2), of "[data_csv, notes_txt]" notes_txt] e
    components_a_first_match [OF decode_examples(2), of "[data_csv]" notes_txt] n
    decode_examples(2)
  show ?thesis by blast
qed

section \<open>Identifiers and sizes on the other paths\<close>

text \<open>
  Where the program does set identifiers and sizes. Decoding gives the images the
  identifiers of the successive calls of \<^verbatim>\<open>randomUUID\<close> and gives the attachments
  none; ingestion gives one to every new image and attachment; replacing the content of
  an image keeps every identifier. Decoding and ingestion set the size of every asset to
  the number of its bytes.
\<close>

lemma readZipFile_image_ids:
  "map img_id (zc_images (readZipFile uuid contents)) =
     map uuid [0..<length (zc_images (readZipFile uuid contents))]"
proof -
  have "map img_id (map (image_of_entry uuid) (enumerate k es)) = map uuid [k..<k + length es]"
    for k and es :: "(string \<times> ZipObject) list"
  proof -
    have "map img_id (map (image_of_entry uuid) (enumerate k es)) =
            map (\<lambda>x. uuid (fst x)) (enumerate k es)"
      by (simp add: image_of_entry_def o_def case_prod_unfold)
    also have "\<dots> = map uuid (map fst (enumerate k es))"
      by (simp only: map_map o_def)
    also have "\<dots> = map uuid [k..<k + length es]"
      by (simp only: map_fst_enumerate)
    finally show ?thesis .
  qed
  from this [of 0] show ?thesis by (simp add: readZipFile_eq)
qed

lemma readZipFile_attachment_ids:
  "list_all (\<lambda>a. att_id a = None) (zc_attachments (readZipFile uuid contents))"
  by (simp add: readZipFile_eq list_all_iff attachment_of_entry_def case_prod_unfold)

lemma newImages_ids: "map img_id (newImages uuid k fs) = map uuid [k..<k + length fs]"
  by (induction fs arbitrary: k) (simp_all add: upt_rec)

lemma newAttachments_ids:
  "map att_id (newAttachments uuid k fs) = map (\<lambda>j. Some (uuid j)) [k..<k + length fs]"
  by (induction fs arbitrary: k) (simp_all add: upt_rec)

lemma handleImageSave_ids: "map img_id (handleImageSave editingImage editedImage prev) = map img_id prev"
  by (simp add: handleImageSave_def Let_def)

lemma readZipFile_sizes:
  "list_all (\<lambda>img. img_size img = length (file_bytes (img_file img)))
     (zc_images (readZipFile uuid contents))"
  "list_all (\<lambda>att. att_size att = length (file_bytes (att_file att)))
     (zc_attachments (readZipFile uuid contents))"
  by (simp_all add: readZipFile_eq list_all_iff image_of_entry_def attachment_of_entry_def
        case_prod_unfold)

lemma newImages_sizes:
  "list_all (\<lambda>img. img_size img = length (file_bytes (img_file img))) (newImages uuid k fs)"
  by (induction fs arbitrary: k) (simp_all add: file_size_def)

lemma newAttachments_sizes:
  "list_all (\<lambda>att. att_size att = length (file_bytes (att_file att))) (newAttachments uuid k fs)"
  by (induction fs arbitrary: k) (simp_all add: file_size_def)

end
